theory Spec2Isabelle
  imports Main "HOL-Library.Word" "HOL-Library.Signed_Division" "HOL-Library.AList"
begin

section \<open>Values of the Go runtime and standard library used by name.go\<close>

text \<open>
  \<^verbatim>\<open>net.IP\<close> is a byte slice; the nil slice is the empty list. \<^verbatim>\<open>time.Time\<close> is an
  instant counted in nanoseconds (its range exceeds any instant plus any duration, so it is
  an unbounded integer here); \<^verbatim>\<open>time.Duration\<close> is an \<^verbatim>\<open>int64\<close> of nanoseconds, whose
  arithmetic wraps. \<^verbatim>\<open>int\<close> is taken to be 64 bits wide.
\<close>

type_synonym IP = "8 word list"
type_synonym Time = int
type_synonym Duration = "64 word"

text \<open>Errors produced by the standard library, wrapped by this package with \<^verbatim>\<open>%w\<close>.\<close>

datatype go_error = ErrSyntax | ErrRange | AddrError string | DNSError string | OpError string

text \<open>
  The errors name.go builds with \<^verbatim>\<open>fmt.Errorf\<close>, one constructor per format string;
  \<open>IndexOutOfRange\<close> is the runtime panic of \<^verbatim>\<open>ips[0]\<close> on an empty slice.
\<close>

datatype error =
    InvalidAddress string go_error
  | InvalidPort string go_error
  | LookupFailed string go_error
  | NoIPAddressesFound string
  | NoIPv4AddressFound string
  | NoIPv6AddressFound string
  | AllDNSServersFailed "go_error option"
  | IndexOutOfRange

definition Second :: Duration where
  "Second = 1000000000"

definition Minute :: Duration where
  "Minute = 60 * Second"

definition dnsTimeout :: Duration where
  "dnsTimeout = 5 * Second"

definition defaultTTL :: Duration where
  "defaultTTL = 5 * Minute"

definition defaultDNSPort :: string where
  "defaultDNSPort = '':53''"

definition refreshThreshold :: Duration where
  "refreshThreshold = 80"

subsection \<open>package time\<close>

definition Before :: "Time \<Rightarrow> Time \<Rightarrow> bool" where
  "Before t u = (t < u)"

definition After :: "Time \<Rightarrow> Time \<Rightarrow> bool" where
  "After t u = (u < t)"

definition Add :: "Time \<Rightarrow> Duration \<Rightarrow> Time" where
  "Add t d = t + sint d"

text \<open>Go's \<^verbatim>\<open>/\<close> on \<^verbatim>\<open>int64\<close> truncates towards zero.\<close>

definition quo :: "Duration \<Rightarrow> Duration \<Rightarrow> Duration" where
  "quo a b = word_of_int (sint a sdiv sint b)"

subsection \<open>package net: the two conversions of an address\<close>

fun isZeros :: "IP \<Rightarrow> bool" where
  "isZeros [] = True"
| "isZeros (b # p) = (if b \<noteq> 0 then False else isZeros p)"

definition To4 :: "IP \<Rightarrow> IP" where
  "To4 ip =
     (if length ip = 4 then ip
      else if length ip = 16 \<and> isZeros (take 10 ip) \<and> ip ! 10 = 0xff \<and> ip ! 11 = 0xff
        then drop 12 ip
      else [])"

definition To16 :: "IP \<Rightarrow> IP" where
  "To16 ip =
     (if length ip = 4 then [0, 0, 0, 0, 0, 0, 0, 0, 0, 0, 0xff, 0xff] @ ip
      else if length ip = 16 then ip
      else [])"

subsection \<open>package strconv: Atoi\<close>

text \<open>
  \<^verbatim>\<open>strconv.Atoi(s)\<close> is \<^verbatim>\<open>ParseInt(s, 10, 0)\<close>: an optional sign, then decimal digits
  only, scanned left to right; the first character that is not a digit is a syntax error,
  a value that leaves the 64-bit range a range error.
\<close>

definition isDigit :: "char \<Rightarrow> bool" where
  "isDigit c = (48 \<le> (of_char c :: nat) \<and> (of_char c :: nat) \<le> 57)"

fun ParseUint :: "string \<Rightarrow> nat \<Rightarrow> go_error + nat" where
  "ParseUint [] n = Inr n"
| "ParseUint (c # cs) n =
     (if \<not> isDigit c then Inl ErrSyntax
      else if n \<ge> 2 ^ 64 div 10 + 1 then Inl ErrRange
      else if n * 10 + (of_char c - 48) > 2 ^ 64 - 1 then Inl ErrRange
      else ParseUint cs (n * 10 + (of_char c - 48)))"

definition Atoi :: "string \<Rightarrow> go_error + int" where
  "Atoi s =
     (if s = [] then Inl ErrSyntax
      else
        let neg = (hd s = CHR ''-'');
            s1 = (if hd s = CHR ''+'' \<or> hd s = CHR ''-'' then tl s else s)
        in if s1 = [] then Inl ErrSyntax
           else (case ParseUint s1 0 of
                   Inl ErrSyntax \<Rightarrow> Inl ErrSyntax
                 | Inl e \<Rightarrow> Inl ErrRange
                 | Inr un \<Rightarrow>
                     if \<not> neg \<and> un \<ge> 2 ^ 63 then Inl ErrRange
                     else if neg \<and> un > 2 ^ 63 then Inl ErrRange
                     else Inr (if neg then - int un else int un)))"

text \<open>
  \<^verbatim>\<open>strconv.Itoa\<close>, the decimal text of an \<^verbatim>\<open>int\<close>: a minus sign for a negative value,
  then the digits of its magnitude, most significant first.
\<close>

fun digitsOf :: "nat \<Rightarrow> string" where
  "digitsOf k =
     (if k < 10 then [char_of (48 + k)]
      else digitsOf (k div 10) @ [char_of (48 + k mod 10)])"

definition Itoa :: "int \<Rightarrow> string" where
  "Itoa i = (if i < 0 then CHR ''-'' # digitsOf (nat (- i)) else digitsOf (nat i))"

subsection \<open>What the package asks of the network\<close>

text \<open>
  \<^verbatim>\<open>net.SplitHostPort\<close>, \<^verbatim>\<open>net.ParseIP\<close> and the resolver's \<^verbatim>\<open>LookupIP\<close> are
  collaborators of the package, taken as they answer at one call. \<open>LookupIP\<close> gets the
  round-robin counter and returns it as its dials left it.
\<close>

record netpkg =
  SplitHostPort :: "string \<Rightarrow> go_error + string \<times> string"
  ParseIP :: "string \<Rightarrow> IP"
  LookupIP :: "32 word \<Rightarrow> string \<Rightarrow> (go_error + IP list) \<times> 32 word"

section \<open>The resolver\<close>

record cacheEntry =
  ips :: "IP list"
  expires :: Time
  stale :: Time

text \<open>
  The \<^verbatim>\<open>sync.Map\<close> is an association list with distinct keys. \<open>goroutines\<close> holds the
  host of every \<^verbatim>\<open>go r.resolveDNS(host)\<close> launched and not yet run.
\<close>

record Resolver =
  cache :: "(string \<times> cacheEntry) list"
  ttl :: Duration
  dnsServers :: "string list"
  serverIndex :: "32 word"
  goroutines :: "string list"

definition Load :: "(string \<times> cacheEntry) list \<Rightarrow> string \<Rightarrow> cacheEntry option" where
  "Load c host = map_of c host"

definition Store :: "(string \<times> cacheEntry) list \<Rightarrow> string \<Rightarrow> cacheEntry \<Rightarrow> (string \<times> cacheEntry) list" where
  "Store c host ce = AList.update host ce c"

definition Delete :: "(string \<times> cacheEntry) list \<Rightarrow> string \<Rightarrow> (string \<times> cacheEntry) list" where
  "Delete c host = AList.delete host c"

definition NewResolver :: "Duration \<Rightarrow> string list \<Rightarrow> Resolver" where
  "NewResolver t servers =
     \<lparr>cache = [], ttl = (if sint t \<le> 0 then defaultTTL else t), dnsServers = servers,
      serverIndex = 0, goroutines = []\<rparr>"

text \<open>\<^verbatim>\<open>resolveDNS\<close>; \<open>now\<close> is the clock read after the lookup has returned.\<close>

definition resolveDNS :: "netpkg \<Rightarrow> Time \<Rightarrow> Resolver \<Rightarrow> string \<Rightarrow> (error + IP list) \<times> Resolver" where
  "resolveDNS n now r host =
     (case LookupIP n (serverIndex r) host of
        (res, idx) \<Rightarrow>
          (case res of
             Inl err \<Rightarrow> (Inl (LookupFailed host err), r\<lparr>serverIndex := idx\<rparr>)
           | Inr addrs \<Rightarrow>
               if length addrs = 0 then (Inl (NoIPAddressesFound host), r\<lparr>serverIndex := idx\<rparr>)
               else (Inr addrs,
                     r\<lparr>serverIndex := idx,
                       cache := Store (cache r) host
                         \<lparr>ips = addrs,
                          expires = Add now (ttl r),
                          stale = Add now (quo (ttl r * refreshThreshold) 100)\<rparr>\<rparr>)))"

text \<open>The entry \<^verbatim>\<open>resolveDNS\<close> builds at time \<open>now\<close> under the TTL \<open>t\<close>.\<close>

definition newEntry :: "Duration \<Rightarrow> Time \<Rightarrow> IP list \<Rightarrow> cacheEntry" where
  "newEntry t now addrs =
     \<lparr>ips = addrs, expires = Add now t, stale = Add now (quo (t * refreshThreshold) 100)\<rparr>"

text \<open>
  \<^verbatim>\<open>lookupHost\<close>; \<open>now\<close> is the clock read on entry, \<open>now'\<close> the later reading of a
  synchronous \<^verbatim>\<open>resolveDNS\<close>.
\<close>

definition lookupHost :: "netpkg \<Rightarrow> Time \<Rightarrow> Time \<Rightarrow> Resolver \<Rightarrow> string \<Rightarrow> (error + IP list) \<times> Resolver" where
  "lookupHost n now now' r host =
     (if ParseIP n host \<noteq> [] then (Inr [ParseIP n host], r)
      else
        (case Load (cache r) host of
           Some ce \<Rightarrow>
             if Before now (expires ce) then
               (Inr (ips ce),
                if After now (stale ce) then r\<lparr>goroutines := goroutines r @ [host]\<rparr> else r)
             else resolveDNS n now' (r\<lparr>cache := Delete (cache r) host\<rparr>) host
         | None \<Rightarrow> resolveDNS n now' r host))"

text \<open>The two scanning loops of \<^verbatim>\<open>resolveAddr\<close>; \<open>[]\<close> is \<^verbatim>\<open>selectedIP\<close> left nil.\<close>

fun scanIPv4 :: "IP list \<Rightarrow> IP" where
  "scanIPv4 [] = []"
| "scanIPv4 (ip # rest) = (if To4 ip \<noteq> [] then ip else scanIPv4 rest)"

fun scanIPv6 :: "IP list \<Rightarrow> IP" where
  "scanIPv6 [] = []"
| "scanIPv6 (ip # rest) = (if To4 ip = [] \<and> To16 ip \<noteq> [] then ip else scanIPv6 rest)"

text \<open>The \<^verbatim>\<open>switch network\<close> of \<^verbatim>\<open>resolveAddr\<close>.\<close>

definition selectIP :: "string \<Rightarrow> string \<Rightarrow> IP list \<Rightarrow> error + IP" where
  "selectIP network host addrs =
     (if network = ''tcp4'' \<or> network = ''udp4'' then
        (if scanIPv4 addrs = [] then Inl (NoIPv4AddressFound host) else Inr (scanIPv4 addrs))
      else if network = ''tcp6'' \<or> network = ''udp6'' then
        (if scanIPv6 addrs = [] then Inl (NoIPv6AddressFound host) else Inr (scanIPv6 addrs))
      else (case addrs of [] \<Rightarrow> Inl IndexOutOfRange | ip # rest \<Rightarrow> Inr ip))"

definition resolveAddr ::
  "netpkg \<Rightarrow> Time \<Rightarrow> Time \<Rightarrow> Resolver \<Rightarrow> string \<Rightarrow> string \<Rightarrow> (error + IP \<times> int) \<times> Resolver" where
  "resolveAddr n now now' r network address =
     (case SplitHostPort n address of
        Inl err \<Rightarrow> (Inl (InvalidAddress address err), r)
      | Inr (host, port) \<Rightarrow>
          (case Atoi port of
             Inl err \<Rightarrow> (Inl (InvalidPort port err), r)
           | Inr portNum \<Rightarrow>
               (case lookupHost n now now' r host of
                  (Inl err, r') \<Rightarrow> (Inl err, r')
                | (Inr addrs, r') \<Rightarrow>
                    (case selectIP network host addrs of
                       Inl err \<Rightarrow> (Inl err, r')
                     | Inr ip \<Rightarrow> (Inr (ip, portNum), r')))))"

text \<open>The two exported entry points build an address from what \<^verbatim>\<open>resolveAddr\<close> returns.\<close>

datatype TCPAddr = TCPAddr IP int

datatype UDPAddr = UDPAddr IP int

definition ResolveTCPAddr ::
  "netpkg \<Rightarrow> Time \<Rightarrow> Time \<Rightarrow> Resolver \<Rightarrow> string \<Rightarrow> string \<Rightarrow> (error + TCPAddr) \<times> Resolver" where
  "ResolveTCPAddr n now now' r network address =
     (case resolveAddr n now now' r network address of
        (Inl err, r') \<Rightarrow> (Inl err, r')
      | (Inr (ip, port), r') \<Rightarrow> (Inr (TCPAddr ip port), r'))"

definition ResolveUDPAddr ::
  "netpkg \<Rightarrow> Time \<Rightarrow> Time \<Rightarrow> Resolver \<Rightarrow> string \<Rightarrow> string \<Rightarrow> (error + UDPAddr) \<times> Resolver" where
  "ResolveUDPAddr n now now' r network address =
     (case resolveAddr n now now' r network address of
        (Inl err, r') \<Rightarrow> (Inl err, r')
      | (Inr (ip, port), r') \<Rightarrow> (Inr (UDPAddr ip port), r'))"

text \<open>\<^verbatim>\<open>ClearCache\<close> ranges over the map and deletes every key it meets.\<close>

definition ClearCache :: "Resolver \<Rightarrow> Resolver" where
  "ClearCache r = r\<lparr>cache := fold (\<lambda>(key, value) c. Delete c key) (cache r) (cache r)\<rparr>"

definition ClearHost :: "Resolver \<Rightarrow> string \<Rightarrow> Resolver" where
  "ClearHost r host = r\<lparr>cache := Delete (cache r) host\<rparr>"

text \<open>\<^verbatim>\<open>GetCachedIPs\<close>; \<open>now\<close> is its reading of the clock.\<close>

definition GetCachedIPs :: "Time \<Rightarrow> Resolver \<Rightarrow> string \<Rightarrow> (IP list \<times> bool) \<times> Resolver" where
  "GetCachedIPs now r host =
     (case Load (cache r) host of
        None \<Rightarrow> (([], False), r)
      | Some ce \<Rightarrow>
          if After now (expires ce) then (([], False), r\<lparr>cache := Delete (cache r) host\<rparr>)
          else ((ips ce, True), r))"

definition RefreshCache :: "Resolver \<Rightarrow> Resolver" where
  "RefreshCache r =
     (let hosts = fold (\<lambda>(key, value) hs. hs @ [key]) (cache r) []
      in fold (\<lambda>host r1. r1\<lparr>goroutines := goroutines r1 @ [host]\<rparr>) hosts r)"

definition CacheCount :: "Resolver \<Rightarrow> int" where
  "CacheCount r = fold (\<lambda>(key, value) count. count + 1) (cache r) 0"

definition SetTTL :: "Resolver \<Rightarrow> Duration \<Rightarrow> Resolver" where
  "SetTTL r t = r\<lparr>ttl := t\<rparr>"

definition GetTTL :: "Resolver \<Rightarrow> Duration" where
  "GetTTL r = ttl r"

text \<open>
  A launched \<^verbatim>\<open>go r.resolveDNS(host)\<close> runs at some later time: the \<open>i\<close>-th pending one
  is taken off the list and run, its results dropped.
\<close>

definition runGoroutine :: "netpkg \<Rightarrow> Time \<Rightarrow> Resolver \<Rightarrow> nat \<Rightarrow> Resolver" where
  "runGoroutine n now r i =
     (if i < length (goroutines r) then
        snd (resolveDNS n now
               (r\<lparr>goroutines := take i (goroutines r) @ drop (Suc i) (goroutines r)\<rparr>)
               (goroutines r ! i))
      else r)"

subsection \<open>The round-robin dialer of \<^verbatim>\<open>NewResolver\<close>\<close>

text \<open>
  \<open>dial server\<close> is the outcome of \<^verbatim>\<open>DialContext(dialCtx, "udp", server)\<close>: \<open>None\<close> for a
  connection, \<open>Some err\<close> for a failure. The loop runs once per element of the server
  list; it returns the result, the counter, and the servers it dialled, in order.
\<close>

datatype conn = Conn string

text \<open>The server of counter value \<open>idx\<close>: \<^verbatim>\<open>dnsServers[int(idx)%len(dnsServers)] + defaultDNSPort\<close>.\<close>

definition nextServer :: "string list \<Rightarrow> 32 word \<Rightarrow> string" where
  "nextServer servers idx = servers ! (unat idx mod length servers) @ defaultDNSPort"

fun dialLoop ::
  "(string \<Rightarrow> go_error option) \<Rightarrow> string list \<Rightarrow> string list \<Rightarrow> 32 word \<Rightarrow> go_error option \<Rightarrow>
   string list \<Rightarrow> (error + conn) \<times> 32 word \<times> string list" where
  "dialLoop dial servers [] counter lastErr dialled =
     (Inl (AllDNSServersFailed lastErr), counter, dialled)"
| "dialLoop dial servers (x # rest) counter lastErr dialled =
     (let idx = (counter + 1) - 1;
          server = nextServer servers idx
      in case dial server of
           None \<Rightarrow> (Inr (Conn server), counter + 1, dialled @ [server])
         | Some err \<Rightarrow> dialLoop dial servers rest (counter + 1) (Some err) (dialled @ [server]))"

definition Dial :: "(string \<Rightarrow> go_error option) \<Rightarrow> Resolver \<Rightarrow> (error + conn) \<times> Resolver \<times> string list" where
  "Dial dial r =
     (case dialLoop dial (dnsServers r) (dnsServers r) (serverIndex r) None [] of
        (res, counter, dialled) \<Rightarrow> (res, r\<lparr>serverIndex := counter\<rparr>, dialled))"

text \<open>\<open>k\<close> calls of \<^verbatim>\<open>Dial\<close>, one after the other: the servers dialled, in order.\<close>

fun dialSeq :: "(string \<Rightarrow> go_error option) \<Rightarrow> Resolver \<Rightarrow> nat \<Rightarrow> string list" where
  "dialSeq dial r 0 = []"
| "dialSeq dial r (Suc k) =
     (case Dial dial r of (res, r', dialled) \<Rightarrow> dialled @ dialSeq dial r' k)"

subsection \<open>The operations of the package as steps of one resolver\<close>

text \<open>
  Every operation that can change the resolver, and the run of a launched goroutine.
  \<^verbatim>\<open>ResolveTCPAddr\<close> and \<^verbatim>\<open>ResolveUDPAddr\<close> change it as \<^verbatim>\<open>resolveAddr\<close> does;
  \<^verbatim>\<open>CacheCount\<close> and \<^verbatim>\<open>GetTTL\<close> only read it.
\<close>

datatype op =
    OpResolveAddr string string
  | OpGetCachedIPs string
  | OpClearCache
  | OpClearHost string
  | OpRefreshCache
  | OpSetTTL Duration
  | OpGoroutine nat

fun step :: "netpkg \<Rightarrow> Time \<Rightarrow> Time \<Rightarrow> Resolver \<Rightarrow> op \<Rightarrow> Resolver" where
  "step n now now' r (OpResolveAddr network address) = snd (resolveAddr n now now' r network address)"
| "step n now now' r (OpGetCachedIPs host) = snd (GetCachedIPs now r host)"
| "step n now now' r OpClearCache = ClearCache r"
| "step n now now' r (OpClearHost host) = ClearHost r host"
| "step n now now' r OpRefreshCache = RefreshCache r"
| "step n now now' r (OpSetTTL t) = SetTTL r t"
| "step n now now' r (OpGoroutine i) = runGoroutine n now r i"

text \<open>
  The ordering of the two instants of every cached entry, with a TTL that is not negative.
\<close>

definition staleBeforeExpiry :: "Resolver \<Rightarrow> bool" where
  "staleBeforeExpiry r =
     (0 \<le> sint (ttl r) \<and> list_all (\<lambda>(host, ce). stale ce \<le> expires ce) (cache r))"

subsection \<open>A sample network\<close>

text \<open>
  The answers of the standard library and of a DNS backend on the few inputs the examples
  below use: \<^verbatim>\<open>SplitHostPort\<close> cuts these addresses at their only colon, \<^verbatim>\<open>ParseIP\<close>
  yields the 16-byte form of \<^verbatim>\<open>1.2.3.4\<close> and \<^verbatim>\<open>2001:db8::1\<close> and nil for a name, and the
  backend knows \<^verbatim>\<open>example.com\<close> (one IPv6 and one IPv4 address), answers
  \<^verbatim>\<open>empty.example\<close> with no address and fails on every other name.
\<close>

definition exampleV4 :: IP where
  "exampleV4 = [93, 184, 216, 34]"

definition exampleV6 :: IP where
  "exampleV6 = [0x26, 0x06, 0x28, 0x00, 0x02, 0x20, 0x00, 0x01, 0x02, 0x48, 0x18, 0x93, 0x25, 0xc8, 0x19, 0x46]"

definition literalV4 :: IP where
  "literalV4 = [0, 0, 0, 0, 0, 0, 0, 0, 0, 0, 0xff, 0xff, 1, 2, 3, 4]"

definition literalV6 :: IP where
  "literalV6 = [0x20, 0x01, 0x0d, 0xb8, 0, 0, 0, 0, 0, 0, 0, 0, 0, 0, 0, 1]"

definition exampleNet :: netpkg where
  "exampleNet =
     \<lparr>SplitHostPort = (\<lambda>address.
        case map_of
          [(''example.com:80'', (''example.com'', ''80'')),
           (''example.com:-1'', (''example.com'', ''-1'')),
           (''example.com:http'', (''example.com'', ''http'')),
           (''empty.example:80'', (''empty.example'', ''80'')),
           (''nosuch.example:80'', (''nosuch.example'', ''80'')),
           (''1.2.3.4:80'', (''1.2.3.4'', ''80'')),
           (''1.2.3.4:-1'', (''1.2.3.4'', ''-1'')),
           (''[2001:db8::1]:80'', (''2001:db8::1'', ''80''))] address of
          Some hp \<Rightarrow> Inr hp
        | None \<Rightarrow> Inl (AddrError ''missing port in address'')),
      ParseIP = (\<lambda>host.
        if host = ''1.2.3.4'' then literalV4
        else if host = ''2001:db8::1'' then literalV6
        else []),
      LookupIP = (\<lambda>counter host.
        if host = ''example.com'' then (Inr [exampleV6, exampleV4], counter)
        else if host = ''empty.example'' then (Inr [], counter)
        else (Inl (DNSError ''no such host''), counter))\<rparr>"

text \<open>The same network while no DNS server can be reached.\<close>

definition downNet :: netpkg where
  "downNet = exampleNet\<lparr>LookupIP := (\<lambda>counter host. (Inl (DNSError ''i/o timeout''), counter))\<rparr>"

text \<open>A resolver with a TTL of 100 ns that resolved \<^verbatim>\<open>example.com\<close> at time 0.\<close>

definition exampleResolver :: Resolver where
  "exampleResolver = snd (resolveDNS exampleNet 0 (NewResolver 100 []) ''example.com'')"

text \<open>Three configured servers, and dialers for which all, none, or all but the first answer.\<close>

definition exampleServers :: "string list" where
  "exampleServers = [''8.8.8.8'', ''8.8.4.4'', ''1.1.1.1'']"

definition allUp :: "string \<Rightarrow> go_error option" where
  "allUp server = None"

definition allDown :: "string \<Rightarrow> go_error option" where
  "allDown server = Some (OpError server)"

definition firstDown :: "string \<Rightarrow> go_error option" where
  "firstDown server = (if server = ''8.8.8.8:53'' then Some (OpError ''i/o timeout'') else None)"

section \<open>The sample network and resolver, evaluated\<close>

lemma exampleNet_SplitHostPort:
  "SplitHostPort exampleNet address =
     (case map_of
        [(''example.com:80'', (''example.com'', ''80'')),
         (''example.com:-1'', (''example.com'', ''-1'')),
         (''example.com:http'', (''example.com'', ''http'')),
         (''empty.example:80'', (''empty.example'', ''80'')),
         (''nosuch.example:80'', (''nosuch.example'', ''80'')),
         (''1.2.3.4:80'', (''1.2.3.4'', ''80'')),
         (''1.2.3.4:-1'', (''1.2.3.4'', ''-1'')),
         (''[2001:db8::1]:80'', (''2001:db8::1'', ''80''))] address of
        Some hp \<Rightarrow> Inr hp
      | None \<Rightarrow> Inl (AddrError ''missing port in address''))"
  by (simp add: exampleNet_def)

lemma exampleNet_ParseIP:
  "ParseIP exampleNet host =
     (if host = ''1.2.3.4'' then literalV4 else if host = ''2001:db8::1'' then literalV6 else [])"
  by (simp add: exampleNet_def)

lemma exampleNet_LookupIP:
  "LookupIP exampleNet counter host =
     (if host = ''example.com'' then (Inr [exampleV6, exampleV4], counter)
      else if host = ''empty.example'' then (Inr [], counter)
      else (Inl (DNSError ''no such host''), counter))"
  by (simp add: exampleNet_def)

lemma downNet_fields:
  "SplitHostPort downNet = SplitHostPort exampleNet"
  "ParseIP downNet = ParseIP exampleNet"
  "LookupIP downNet counter host = (Inl (DNSError ''i/o timeout''), counter)"
  by (simp_all add: downNet_def)

lemma quo_80_of_100: "sint (quo (100 * refreshThreshold) 100) = 80"
  by (simp add: quo_def refreshThreshold_def)

lemma exampleResolver_eq:
  "exampleResolver =
     \<lparr>cache = [(''example.com'', \<lparr>ips = [exampleV6, exampleV4], expires = 100, stale = 80\<rparr>)],
      ttl = 100, dnsServers = [], serverIndex = 0, goroutines = []\<rparr>"
  by (simp add: exampleResolver_def resolveDNS_def exampleNet_LookupIP NewResolver_def
      Store_def Add_def quo_80_of_100)

section \<open>Address-family selection\<close>

lemma To4_nil: "To4 ip \<noteq> [] \<Longrightarrow> ip \<noteq> []"
  by (auto simp: To4_def)

lemma To16_nil: "To16 ip \<noteq> [] \<Longrightarrow> ip \<noteq> []"
  by (auto simp: To16_def)

lemma scanIPv4_find:
  "scanIPv4 addrs = (case find (\<lambda>ip. To4 ip \<noteq> []) addrs of None \<Rightarrow> [] | Some ip \<Rightarrow> ip)"
  by (induction addrs) auto

lemma scanIPv6_find:
  "scanIPv6 addrs =
     (case find (\<lambda>ip. To4 ip = [] \<and> To16 ip \<noteq> []) addrs of None \<Rightarrow> [] | Some ip \<Rightarrow> ip)"
  by (induction addrs) auto

lemma selectIP_v4:
  assumes "network = ''tcp4'' \<or> network = ''udp4''"
  shows "selectIP network host addrs =
     (case find (\<lambda>ip. To4 ip \<noteq> []) addrs of
        None \<Rightarrow> Inl (NoIPv4AddressFound host) | Some ip \<Rightarrow> Inr ip)"
proof (cases "find (\<lambda>ip. To4 ip \<noteq> []) addrs")
  case None
  with assms show ?thesis by (auto simp: selectIP_def scanIPv4_find)
next
  case (Some ip)
  then have "To4 ip \<noteq> []" by (auto simp: find_Some_iff)
  then have "ip \<noteq> []" by (rule To4_nil)
  with assms Some show ?thesis by (auto simp: selectIP_def scanIPv4_find)
qed

lemma selectIP_v6:
  assumes "network = ''tcp6'' \<or> network = ''udp6''"
  shows "selectIP network host addrs =
     (case find (\<lambda>ip. To4 ip = [] \<and> To16 ip \<noteq> []) addrs of
        None \<Rightarrow> Inl (NoIPv6AddressFound host) | Some ip \<Rightarrow> Inr ip)"
proof (cases "find (\<lambda>ip. To4 ip = [] \<and> To16 ip \<noteq> []) addrs")
  case None
  with assms show ?thesis by (auto simp: selectIP_def scanIPv6_find)
next
  case (Some ip)
  then have "To16 ip \<noteq> []" by (auto simp: find_Some_iff)
  then have "ip \<noteq> []" by (rule To16_nil)
  with assms Some show ?thesis by (auto simp: selectIP_def scanIPv6_find)
qed

lemma selectIP_default:
  assumes "network \<noteq> ''tcp4''" "network \<noteq> ''udp4''" "network \<noteq> ''tcp6''" "network \<noteq> ''udp6''"
  shows "selectIP network host addrs =
     (case addrs of [] \<Rightarrow> Inl IndexOutOfRange | ip # rest \<Rightarrow> Inr ip)"
  using assms by (simp add: selectIP_def)

lemma resolveAddr_select:
  assumes "SplitHostPort n address = Inr (host, port)" and "Atoi port = Inr portNum"
    and "lookupHost n now now' r host = (Inr addrs, r')"
  shows "resolveAddr n now now' r network address =
     (case selectIP network host addrs of
        Inl err \<Rightarrow> (Inl err, r') | Inr ip \<Rightarrow> (Inr (ip, portNum), r'))"
  using assms by (simp add: resolveAddr_def)

lemma example_lookup:
  "lookupHost exampleNet 0 0 (NewResolver 100 []) ''example.com'' =
     (Inr [exampleV6, exampleV4], exampleResolver)"
  by (simp add: lookupHost_def resolveDNS_def exampleNet_ParseIP exampleNet_LookupIP
      exampleResolver_def NewResolver_def Load_def)

lemma example_split:
  "SplitHostPort exampleNet ''example.com:80'' = Inr (''example.com'', ''80'')"
  by (simp add: exampleNet_SplitHostPort)

lemma Atoi_80: "Atoi ''80'' = Inr 80"
  by (simp add: Atoi_def isDigit_def)

text \<open>
  C5. For a non-empty resolved list: with \<^verbatim>\<open>tcp4\<close>/\<^verbatim>\<open>udp4\<close>, \<^verbatim>\<open>resolveAddr\<close> returns the
  first address, in the list's order, whose \<^verbatim>\<open>To4\<close> is not nil, and fails with the
  no-IPv4 error when there is none; with \<^verbatim>\<open>tcp6\<close>/\<^verbatim>\<open>udp6\<close> it returns the first address
  whose \<^verbatim>\<open>To4\<close> is nil and whose \<^verbatim>\<open>To16\<close> is not, and fails with the no-IPv6 error when
  there is none; with \<^verbatim>\<open>tcp\<close>/\<^verbatim>\<open>udp\<close> it returns the first address of the list.
  (\<open>find P xs\<close> is the first element of \<open>xs\<close> satisfying \<open>P\<close>.)
\<close>

theorem resolveAddr_selects_by_family:
  assumes split: "SplitHostPort n address = Inr (host, port)"
    and port: "Atoi port = Inr portNum"
    and look: "lookupHost n now now' r host = (Inr addrs, r')"
    and ne: "addrs \<noteq> []"
  shows
    "(network = ''tcp4'' \<or> network = ''udp4'' \<longrightarrow>
        resolveAddr n now now' r network address =
          (case find (\<lambda>ip. To4 ip \<noteq> []) addrs of
             None \<Rightarrow> (Inl (NoIPv4AddressFound host), r')
           | Some ip \<Rightarrow> (Inr (ip, portNum), r'))) \<and>
     (network = ''tcp6'' \<or> network = ''udp6'' \<longrightarrow>
        resolveAddr n now now' r network address =
          (case find (\<lambda>ip. To4 ip = [] \<and> To16 ip \<noteq> []) addrs of
             None \<Rightarrow> (Inl (NoIPv6AddressFound host), r')
           | Some ip \<Rightarrow> (Inr (ip, portNum), r'))) \<and>
     (network = ''tcp'' \<or> network = ''udp'' \<longrightarrow>
        resolveAddr n now now' r network address = (Inr (addrs ! 0, portNum), r'))"
proof (intro conjI impI)
  assume "network = ''tcp4'' \<or> network = ''udp4''"
  then show "resolveAddr n now now' r network address =
      (case find (\<lambda>ip. To4 ip \<noteq> []) addrs of
         None \<Rightarrow> (Inl (NoIPv4AddressFound host), r')
       | Some ip \<Rightarrow> (Inr (ip, portNum), r'))"
    by (simp add: resolveAddr_select[OF split port look] selectIP_v4 split: option.split)
next
  assume "network = ''tcp6'' \<or> network = ''udp6''"
  then show "resolveAddr n now now' r network address =
      (case find (\<lambda>ip. To4 ip = [] \<and> To16 ip \<noteq> []) addrs of
         None \<Rightarrow> (Inl (NoIPv6AddressFound host), r')
       | Some ip \<Rightarrow> (Inr (ip, portNum), r'))"
    by (simp add: resolveAddr_select[OF split port look] selectIP_v6 split: option.split)
next
  assume "network = ''tcp'' \<or> network = ''udp''"
  then have "selectIP network host addrs = Inr (addrs ! 0)"
    using ne by (auto simp: selectIP_def split: list.splits)
  then show "resolveAddr n now now' r network address = (Inr (addrs ! 0, portNum), r')"
    by (simp add: resolveAddr_select[OF split port look])
qed

theorem resolveAddr_selects_by_family_witness:
  "resolveAddr exampleNet 0 0 (NewResolver 100 []) ''tcp4'' ''example.com:80'' =
     (Inr (exampleV4, 80), exampleResolver) \<and>
   resolveAddr exampleNet 0 0 (NewResolver 100 []) ''udp6'' ''example.com:80'' =
     (Inr (exampleV6, 80), exampleResolver) \<and>
   resolveAddr exampleNet 0 0 (NewResolver 100 []) ''tcp'' ''example.com:80'' =
     (Inr (exampleV6, 80), exampleResolver)"
proof -
  have ne: "[exampleV6, exampleV4] \<noteq> []" by simp
  note fam = resolveAddr_selects_by_family[OF example_split Atoi_80 example_lookup ne]
  have v4: "find (\<lambda>ip. To4 ip \<noteq> []) [exampleV6, exampleV4] = Some exampleV4"
    by (simp add: To4_def exampleV4_def exampleV6_def)
  have v6: "find (\<lambda>ip. To4 ip = [] \<and> To16 ip \<noteq> []) [exampleV6, exampleV4] = Some exampleV6"
    by (simp add: To4_def To16_def exampleV6_def)
  show ?thesis
    using fam[of "''tcp4''"] fam[of "''udp6''"] fam[of "''tcp''"] v4 v6 by simp
qed

text \<open>
  C9. A network string other than \<^verbatim>\<open>tcp4\<close>, \<^verbatim>\<open>udp4\<close>, \<^verbatim>\<open>tcp6\<close>, \<^verbatim>\<open>udp6\<close> is not
  validated: \<^verbatim>\<open>resolveAddr\<close> does with it exactly what it does with \<^verbatim>\<open>tcp\<close> and with
  \<^verbatim>\<open>udp\<close>. Once the address has split and the port has parsed, its result is fixed by the
  lookup of the host alone: an error of the lookup is returned as it is, and from a resolved
  list \<^verbatim>\<open>resolveAddr\<close> returns the first address, whatever its family, with the parsed
  port (an empty list, which no lookup returns, would be the panic of \<^verbatim>\<open>ips[0]\<close>). No
  such network yields one of the two family errors.
\<close>

theorem resolveAddr_unrecognized_network:
  assumes "network \<noteq> ''tcp4''" "network \<noteq> ''udp4''" "network \<noteq> ''tcp6''" "network \<noteq> ''udp6''"
  shows "resolveAddr n now now' r network address = resolveAddr n now now' r ''tcp'' address \<and>
         resolveAddr n now now' r network address = resolveAddr n now now' r ''udp'' address \<and>
         (\<forall>ip rest. selectIP network host (ip # rest) = Inr ip) \<and>
         (\<forall>h port portNum.
            SplitHostPort n address = Inr (h, port) \<and> Atoi port = Inr portNum \<longrightarrow>
            resolveAddr n now now' r network address =
              (case lookupHost n now now' r h of
                 (Inl err, r') \<Rightarrow> (Inl err, r')
               | (Inr [], r') \<Rightarrow> (Inl IndexOutOfRange, r')
               | (Inr (ip # rest), r') \<Rightarrow> (Inr (ip, portNum), r'))) \<and>
         (\<forall>h port portNum ip rest r'.
            SplitHostPort n address = Inr (h, port) \<and> Atoi port = Inr portNum \<and>
            lookupHost n now now' r h = (Inr (ip # rest), r') \<longrightarrow>
            resolveAddr n now now' r network address = (Inr (ip, portNum), r')) \<and>
         (\<forall>h. fst (resolveAddr n now now' r network address) \<noteq> Inl (NoIPv4AddressFound h) \<and>
              fst (resolveAddr n now now' r network address) \<noteq> Inl (NoIPv6AddressFound h))"
proof -
  have sel: "selectIP network h a = (case a of [] \<Rightarrow> Inl IndexOutOfRange | ip # rest \<Rightarrow> Inr ip)"
    for h a
    using assms by (rule selectIP_default)
  have tcp: "selectIP ''tcp'' h a = (case a of [] \<Rightarrow> Inl IndexOutOfRange | ip # rest \<Rightarrow> Inr ip)"
    for h a
    by (rule selectIP_default) simp_all
  have udp: "selectIP ''udp'' h a = (case a of [] \<Rightarrow> Inl IndexOutOfRange | ip # rest \<Rightarrow> Inr ip)"
    for h a
    by (rule selectIP_default) simp_all
  have eq_tcp: "selectIP network = selectIP ''tcp''" and eq_udp: "selectIP ''udp'' = selectIP ''tcp''"
    by (intro ext, simp add: sel tcp udp)+
  have A: "resolveAddr n now now' r network address = resolveAddr n now now' r ''tcp'' address"
    unfolding resolveAddr_def eq_tcp by (rule refl)
  have B: "resolveAddr n now now' r ''udp'' address = resolveAddr n now now' r ''tcp'' address"
    unfolding resolveAddr_def eq_udp by (rule refl)
  have C: "resolveAddr n now now' r network address =
              (case lookupHost n now now' r h of
                 (Inl err, r') \<Rightarrow> (Inl err, r')
               | (Inr [], r') \<Rightarrow> (Inl IndexOutOfRange, r')
               | (Inr (ip # rest), r') \<Rightarrow> (Inr (ip, portNum), r'))"
    if "SplitHostPort n address = Inr (h, port)" "Atoi port = Inr portNum" for h port portNum
  proof -
    obtain res r' where look: "lookupHost n now now' r h = (res, r')"
      by (cases "lookupHost n now now' r h")
    show ?thesis
    proof (cases res)
      case (Inl err)
      with that look show ?thesis by (simp add: resolveAddr_def)
    next
      case (Inr addrs)
      with that look show ?thesis
        by (cases addrs) (simp_all add: resolveAddr_def sel)
    qed
  qed
  have D: "resolveAddr n now now' r network address = (Inr (ip, portNum), r')"
    if "SplitHostPort n address = Inr (h, port)" "Atoi port = Inr portNum"
      "lookupHost n now now' r h = (Inr (ip # rest), r')" for h port portNum ip rest r'
    using C[OF that(1,2)] that(3) by simp
  have lookup_err: "fst (lookupHost n now now' r h) \<noteq> Inl (NoIPv4AddressFound h') \<and>
      fst (lookupHost n now now' r h) \<noteq> Inl (NoIPv6AddressFound h')" for h h'
  proof -
    have "fst (resolveDNS n t r1 h) \<noteq> Inl (NoIPv4AddressFound h') \<and>
        fst (resolveDNS n t r1 h) \<noteq> Inl (NoIPv6AddressFound h')" for t r1
      by (cases "LookupIP n (serverIndex r1) h") (auto simp: resolveDNS_def split: sum.splits)
    then show ?thesis
      by (auto simp: lookupHost_def split: option.splits)
  qed
  have E: "fst (resolveAddr n now now' r network address) \<noteq> Inl (NoIPv4AddressFound h') \<and>
      fst (resolveAddr n now now' r network address) \<noteq> Inl (NoIPv6AddressFound h')" for h'
  proof (cases "SplitHostPort n address")
    case (Inl err)
    then show ?thesis by (simp add: resolveAddr_def)
  next
    case (Inr hp)
    obtain h port where hp: "hp = (h, port)" by (cases hp)
    show ?thesis
    proof (cases "Atoi port")
      case (Inl err)
      with Inr hp show ?thesis by (simp add: resolveAddr_def)
    next
      case port: (Inr portNum)
      obtain res r' where look: "lookupHost n now now' r h = (res, r')"
        by (cases "lookupHost n now now' r h")
      show ?thesis
      proof (cases res)
        case (Inl err)
        with look lookup_err[of h h'] show ?thesis
          by (simp add: C[OF Inr[unfolded hp] port])
      next
        case (Inr addrs)
        with look show ?thesis
          by (cases addrs) (simp_all add: C[OF \<open>SplitHostPort n address = Inr hp\<close>[unfolded hp] port])
      qed
    qed
  qed
  from A B C D E show ?thesis
    by (simp add: sel)
qed

theorem resolveAddr_unrecognized_network_witness:
  "resolveAddr exampleNet 0 0 (NewResolver 100 []) ''carrier-pigeon'' ''example.com:80'' =
     resolveAddr exampleNet 0 0 (NewResolver 100 []) ''tcp'' ''example.com:80'' \<and>
   resolveAddr exampleNet 0 0 (NewResolver 100 []) ''carrier-pigeon'' ''example.com:80'' =
     (Inr (exampleV6, 80), exampleResolver) \<and>
   resolveAddr exampleNet 0 0 (NewResolver 100 []) ''carrier-pigeon'' ''1.2.3.4:80'' =
     (Inr (literalV4, 80), NewResolver 100 []) \<and>
   resolveAddr exampleNet 0 0 (NewResolver 100 []) ''carrier-pigeon'' ''nosuch.example:80'' =
     (Inl (LookupFailed ''nosuch.example'' (DNSError ''no such host'')), NewResolver 100 []) \<and>
   selectIP ''carrier-pigeon'' ''example.com'' [exampleV6, exampleV4] = Inr exampleV6"
proof -
  have nw: "''carrier-pigeon'' \<noteq> ''tcp4''" "''carrier-pigeon'' \<noteq> ''udp4''"
    "''carrier-pigeon'' \<noteq> ''tcp6''" "''carrier-pigeon'' \<noteq> ''udp6''"
    by simp_all
  note th = resolveAddr_unrecognized_network[OF nw]
  have s2: "SplitHostPort exampleNet ''1.2.3.4:80'' = Inr (''1.2.3.4'', ''80'')"
    and s3: "SplitHostPort exampleNet ''nosuch.example:80'' = Inr (''nosuch.example'', ''80'')"
    by (simp_all add: exampleNet_SplitHostPort)
  have l2: "lookupHost exampleNet 0 0 (NewResolver 100 []) ''1.2.3.4'' =
      (Inr [literalV4], NewResolver 100 [])"
    by (simp add: lookupHost_def exampleNet_ParseIP literalV4_def)
  have l3: "lookupHost exampleNet 0 0 (NewResolver 100 []) ''nosuch.example'' =
      (Inl (LookupFailed ''nosuch.example'' (DNSError ''no such host'')), NewResolver 100 [])"
    by (simp add: lookupHost_def resolveDNS_def exampleNet_ParseIP exampleNet_LookupIP
        NewResolver_def Load_def)
  have "resolveAddr exampleNet 0 0 (NewResolver 100 []) ''carrier-pigeon'' ''example.com:80'' =
     resolveAddr exampleNet 0 0 (NewResolver 100 []) ''tcp'' ''example.com:80''"
    using th[of exampleNet 0 0 "NewResolver 100 []" "''example.com:80''" "''example.com''"]
    by (rule conjunct1)
  moreover
  have "resolveAddr exampleNet 0 0 (NewResolver 100 []) ''carrier-pigeon'' ''example.com:80'' =
     (Inr (exampleV6, 80), exampleResolver)"
    using th[of exampleNet 0 0 "NewResolver 100 []" "''example.com:80''" "''example.com''",
        THEN conjunct2, THEN conjunct2, THEN conjunct2, THEN conjunct1, rule_format,
        of "''example.com''" "''80''" 80]
    by (simp add: example_split Atoi_80 example_lookup)
  moreover
  have "resolveAddr exampleNet 0 0 (NewResolver 100 []) ''carrier-pigeon'' ''1.2.3.4:80'' =
     (Inr (literalV4, 80), NewResolver 100 [])"
    using th[of exampleNet 0 0 "NewResolver 100 []" "''1.2.3.4:80''" "''1.2.3.4''",
        THEN conjunct2, THEN conjunct2, THEN conjunct2, THEN conjunct1, rule_format,
        of "''1.2.3.4''" "''80''" 80]
    by (simp add: s2 Atoi_80 l2)
  moreover
  have "resolveAddr exampleNet 0 0 (NewResolver 100 []) ''carrier-pigeon'' ''nosuch.example:80'' =
     (Inl (LookupFailed ''nosuch.example'' (DNSError ''no such host'')), NewResolver 100 [])"
    using th[of exampleNet 0 0 "NewResolver 100 []" "''nosuch.example:80''" "''nosuch.example''",
        THEN conjunct2, THEN conjunct2, THEN conjunct2, THEN conjunct1, rule_format,
        of "''nosuch.example''" "''80''" 80]
    by (simp add: s3 Atoi_80 l3)
  moreover
  have "selectIP ''carrier-pigeon'' ''example.com'' [exampleV6, exampleV4] = Inr exampleV6"
    using th[of exampleNet 0 0 "NewResolver 100 []" "''example.com:80''" "''example.com''"]
    by simp
  ultimately show ?thesis by simp
qed

section \<open>The cache and the three outcomes of a resolution\<close>

lemma Load_Store: "Load (Store c host ce) h = (if h = host then Some ce else Load c h)"
  by (simp add: Load_def Store_def update_conv')

lemma Load_Delete: "Load (Delete c host) h = (if h = host then None else Load c h)"
  by (simp add: Load_def Delete_def delete_conv')

lemma Delete_absent: "Load c host = None \<Longrightarrow> Delete c host = c"
  by (simp add: Load_def Delete_def map_of_eq_None_iff)

lemma resolveDNS_failure:
  assumes "fst (LookupIP n (serverIndex r) host) = Inl e"
  shows "resolveDNS n now r host =
           (Inl (LookupFailed host e), r\<lparr>serverIndex := snd (LookupIP n (serverIndex r) host)\<rparr>)"
  using assms by (cases "LookupIP n (serverIndex r) host") (simp add: resolveDNS_def)

lemma resolveDNS_empty:
  assumes "fst (LookupIP n (serverIndex r) host) = Inr []"
  shows "resolveDNS n now r host =
           (Inl (NoIPAddressesFound host), r\<lparr>serverIndex := snd (LookupIP n (serverIndex r) host)\<rparr>)"
  using assms by (cases "LookupIP n (serverIndex r) host") (simp add: resolveDNS_def)

lemma resolveDNS_success:
  assumes "fst (LookupIP n (serverIndex r) host) = Inr addrs" "addrs \<noteq> []"
  shows "resolveDNS n now r host =
           (Inr addrs,
            r\<lparr>serverIndex := snd (LookupIP n (serverIndex r) host),
              cache := Store (cache r) host
                \<lparr>ips = addrs, expires = Add now (ttl r),
                 stale = Add now (quo (ttl r * refreshThreshold) 100)\<rparr>\<rparr>)"
  using assms by (cases "LookupIP n (serverIndex r) host") (simp add: resolveDNS_def)

lemma lookupHost_hit:
  assumes "ParseIP n host = []" "Load (cache r) host = Some ce" "now < expires ce"
  shows "lookupHost n now now' r host =
     (Inr (ips ce), if stale ce < now then r\<lparr>goroutines := goroutines r @ [host]\<rparr> else r)"
  using assms by (simp add: lookupHost_def Before_def After_def)

lemma lookupHost_expired:
  assumes "ParseIP n host = []" "Load (cache r) host = Some ce" "expires ce \<le> now"
  shows "lookupHost n now now' r host = resolveDNS n now' (r\<lparr>cache := Delete (cache r) host\<rparr>) host"
  using assms by (simp add: lookupHost_def Before_def)

lemma lookupHost_miss:
  assumes "ParseIP n host = []" "Load (cache r) host = None"
  shows "lookupHost n now now' r host = resolveDNS n now' r host"
  using assms by (simp add: lookupHost_def)

lemma lookupHost_literal:
  assumes "ParseIP n host \<noteq> []"
  shows "lookupHost n now now' r host = (Inr [ParseIP n host], r)"
  using assms by (simp add: lookupHost_def)

lemma example_entry:
  "Load (cache exampleResolver) ''example.com'' =
     Some \<lparr>ips = [exampleV6, exampleV4], expires = 100, stale = 80\<rparr>"
  by (simp add: exampleResolver_eq Load_def)

lemma example_not_literal: "ParseIP exampleNet ''example.com'' = []"
  by (simp add: exampleNet_ParseIP)

lemma quo_80_of_100_word: "quo (100 * refreshThreshold) 100 = 80"
  by (simp add: quo_def refreshThreshold_def)

section \<open>Reading a cached entry\<close>

text \<open>
  C1, as the code has it. For a host that is not an IP literal and has a cached entry
  read at a time \<open>now\<close> before \<open>expires\<close>: \<^verbatim>\<open>lookupHost\<close> returns the cached addresses at
  once, and it launches exactly one background \<^verbatim>\<open>resolveDNS\<close> for that host when
  \<open>stale < now\<close> (the test is \<^verbatim>\<open>now.After(ce.stale)\<close>, strict); at \<open>now \<le> stale\<close>, the
  instant \<open>now = stale\<close> included, it launches none and leaves the resolver as it was.
\<close>

theorem lookupHost_stale_hit:
  assumes "ParseIP n host = []" and "Load (cache r) host = Some ce" and "now < expires ce"
  shows "(stale ce < now \<longrightarrow>
            lookupHost n now now' r host =
              (Inr (ips ce), r\<lparr>goroutines := goroutines r @ [host]\<rparr>)) \<and>
         (now \<le> stale ce \<longrightarrow> lookupHost n now now' r host = (Inr (ips ce), r))"
  using assms by (simp add: lookupHost_hit)

theorem lookupHost_stale_hit_witness:
  "lookupHost exampleNet 90 91 exampleResolver ''example.com'' =
     (Inr [exampleV6, exampleV4],
      exampleResolver\<lparr>goroutines := goroutines exampleResolver @ [''example.com'']\<rparr>) \<and>
   lookupHost exampleNet 80 81 exampleResolver ''example.com'' =
     (Inr [exampleV6, exampleV4], exampleResolver)"
  using lookupHost_stale_hit[OF example_not_literal example_entry, of 90 91]
    lookupHost_stale_hit[OF example_not_literal example_entry, of 80 81]
  by simp

text \<open>
  The claim as stated fails at \<open>now = stale\<close>: the entry of \<^verbatim>\<open>example.com\<close> has
  \<open>stale = 80 \<le> now = 80 < expires = 100\<close>, and the lookup launches no refresh.
\<close>

theorem lookupHost_at_stale_instant_counterexample:
  "Load (cache exampleResolver) ''example.com'' =
     Some \<lparr>ips = [exampleV6, exampleV4], expires = 100, stale = 80\<rparr> \<and>
   stale \<lparr>ips = [exampleV6, exampleV4], expires = 100, stale = 80\<rparr> \<le> 80 \<and>
   80 < expires \<lparr>ips = [exampleV6, exampleV4], expires = 100, stale = 80\<rparr> \<and>
   lookupHost exampleNet 80 81 exampleResolver ''example.com'' =
     (Inr [exampleV6, exampleV4], exampleResolver) \<and>
   goroutines (snd (lookupHost exampleNet 80 81 exampleResolver ''example.com'')) = []"
proof -
  have hit: "lookupHost exampleNet 80 81 exampleResolver ''example.com'' =
      (Inr [exampleV6, exampleV4], exampleResolver)"
    using lookupHost_hit[OF example_not_literal example_entry, of 80 81] by simp
  have "goroutines exampleResolver = []"
    by (simp add: exampleResolver_eq)
  with hit show ?thesis
    by (simp add: example_entry)
qed

text \<open>
  What \<^verbatim>\<open>GetCachedIPs\<close> does after a successful resolution at \<open>t0\<close> under TTL \<open>ttl r\<close>:
  found up to and including \<open>t0 + ttl\<close>, not found and the entry deleted after it. It
  launches nothing (it has no access to the network, and \<open>goroutines\<close> is untouched).
\<close>

lemma GetCachedIPs_after_resolve:
  assumes "fst (LookupIP n (serverIndex r) host) = Inr addrs" "addrs \<noteq> []"
    and "r' = snd (resolveDNS n t0 r host)"
  shows "GetCachedIPs t r' host =
     (if t0 + sint (ttl r) < t then (([], False), r'\<lparr>cache := Delete (cache r') host\<rparr>)
      else ((addrs, True), r'))"
  using assms by (simp add: resolveDNS_success GetCachedIPs_def Load_Store After_def Add_def)

text \<open>
  C2, at the instant of expiry. \<^verbatim>\<open>example.com\<close> was resolved at \<open>t0 = 0\<close> with TTL
  \<open>T = 100\<close>. Read at \<open>t = t0 + T = 100\<close>, \<^verbatim>\<open>GetCachedIPs\<close> still reports the entry as
  found (its test is \<^verbatim>\<open>time.Now().After(ce.expires)\<close>), where the claim says not found for
  every \<open>t \<ge> t0 + T\<close>; \<^verbatim>\<open>lookupHost\<close> at the same instant treats the entry as expired
  (its test is \<^verbatim>\<open>now.Before(ce.expires)\<close>), deletes it and resolves again.
\<close>

theorem GetCachedIPs_at_expiry_instant:
  "exampleResolver = snd (resolveDNS exampleNet 0 (NewResolver 100 []) ''example.com'') \<and>
   GetCachedIPs 100 exampleResolver ''example.com'' =
     (([exampleV6, exampleV4], True), exampleResolver) \<and>
   lookupHost exampleNet 100 100 exampleResolver ''example.com'' =
     (Inr [exampleV6, exampleV4],
      exampleResolver\<lparr>cache :=
        [(''example.com'', \<lparr>ips = [exampleV6, exampleV4], expires = 200, stale = 180\<rparr>)]\<rparr>)"
proof -
  have "GetCachedIPs 100 exampleResolver ''example.com'' =
      (([exampleV6, exampleV4], True), exampleResolver)"
    by (simp add: GetCachedIPs_def example_entry After_def)
  moreover have "lookupHost exampleNet 100 100 exampleResolver ''example.com'' =
     (Inr [exampleV6, exampleV4],
      exampleResolver\<lparr>cache :=
        [(''example.com'', \<lparr>ips = [exampleV6, exampleV4], expires = 200, stale = 180\<rparr>)]\<rparr>)"
  proof -
    have "lookupHost exampleNet 100 100 exampleResolver ''example.com'' =
        resolveDNS exampleNet 100
          (exampleResolver\<lparr>cache := Delete (cache exampleResolver) ''example.com''\<rparr>) ''example.com''"
      by (rule lookupHost_expired[OF example_not_literal example_entry]) simp
    also have "\<dots> = (Inr [exampleV6, exampleV4],
      exampleResolver\<lparr>cache :=
        [(''example.com'', \<lparr>ips = [exampleV6, exampleV4], expires = 200, stale = 180\<rparr>)]\<rparr>)"
      by (simp add: resolveDNS_def exampleNet_LookupIP exampleResolver_eq Delete_def Store_def
          Add_def quo_80_of_100_word)
    finally show ?thesis .
  qed
  ultimately show ?thesis
    by (simp add: exampleResolver_def)
qed

section \<open>The round-robin dialer\<close>

lemma upt_0_Suc_shift: "map f [0..<Suc m] = f 0 # map (\<lambda>k. f (Suc k)) [0..<m]"
proof -
  have "[0..<Suc m] = 0 # [Suc 0..<Suc m]"
    by (rule upt_conv_Cons) simp
  also have "[Suc 0..<Suc m] = map Suc [0..<m]"
    by (rule map_Suc_upt[symmetric])
  finally have "[0..<Suc m] = 0 # map Suc [0..<m]" .
  then show ?thesis by (simp add: comp_def del: upt_Suc)
qed

lemma counter_shift: "(c + 1 :: 32 word) + of_nat k = c + of_nat (Suc k)"
  by simp

lemma dialLoop_all_fail:
  assumes "\<forall>k<length rest. dial (nextServer S (c + of_nat k)) \<noteq> None"
  shows "dialLoop dial S rest c lastErr dialled =
     (Inl (AllDNSServersFailed
        (if rest = [] then lastErr
         else dial (nextServer S (c + of_nat (length rest - 1))))),
      c + of_nat (length rest),
      dialled @ map (\<lambda>k. nextServer S (c + of_nat k)) [0..<length rest])"
  using assms
proof (induction rest arbitrary: c lastErr dialled)
  case Nil
  then show ?case by simp
next
  case (Cons x rest)
  define f where "f = (\<lambda>c k. nextServer S (c + (of_nat k :: 32 word)))"
  have f0: "f c 0 = nextServer S c"
    by (simp add: f_def)
  have fS: "f (c + 1) k = f c (Suc k)" for k
    unfolding f_def counter_shift ..
  have prems: "\<forall>k<Suc (length rest). dial (f c k) \<noteq> None"
    using Cons.prems by (simp add: f_def)
  then have "dial (f c 0) \<noteq> None" by blast
  then obtain err where err: "dial (f c 0) = Some err" by auto
  have later: "\<forall>k<length rest. dial (f (c + 1) k) \<noteq> None"
    using prems by (auto simp: fS)
  have IH: "dialLoop dial S rest (c + 1) (Some err) (dialled @ [f c 0]) =
     (Inl (AllDNSServersFailed (if rest = [] then Some err else dial (f (c + 1) (length rest - 1)))),
      (c + 1) + of_nat (length rest),
      (dialled @ [f c 0]) @ map (f (c + 1)) [0..<length rest])"
    using Cons.IH[of "c + 1" "Some err" "dialled @ [f c 0]"] later
    unfolding f_def by blast
  have step: "dialLoop dial S (x # rest) c lastErr dialled =
      dialLoop dial S rest (c + 1) (Some err) (dialled @ [f c 0])"
    using err by (simp add: f0)
  have last: "(if rest = [] then Some err else dial (f (c + 1) (length rest - 1))) =
      dial (f c (length rest))"
    by (cases rest) (simp_all add: err fS)
  have cnt: "(c + 1) + of_nat (length rest) = c + (of_nat (length (x # rest)) :: 32 word)"
    by simp
  have tr: "(dialled @ [f c 0]) @ map (f (c + 1)) [0..<length rest] =
      dialled @ map (f c) [0..<length (x # rest)]"
    by (simp add: upt_0_Suc_shift[of "f c" "length rest"] fS del: upt_Suc)
  have "dialLoop dial S (x # rest) c lastErr dialled =
      (Inl (AllDNSServersFailed (dial (f c (length (x # rest) - 1)))),
       c + of_nat (length (x # rest)), dialled @ map (f c) [0..<length (x # rest)])"
    unfolding step IH last cnt tr by simp
  then show ?case
    unfolding f_def by simp
qed

lemma dialLoop_first_success:
  assumes "k < length rest"
    and "dial (nextServer S (c + of_nat k)) = None"
    and "\<forall>j<k. dial (nextServer S (c + of_nat j)) \<noteq> None"
  shows "dialLoop dial S rest c lastErr dialled =
     (Inr (Conn (nextServer S (c + of_nat k))),
      c + of_nat (Suc k),
      dialled @ map (\<lambda>j. nextServer S (c + of_nat j)) [0..<Suc k])"
  using assms
proof (induction rest arbitrary: c lastErr dialled k)
  case Nil
  then show ?case by simp
next
  case (Cons x rest)
  define f where "f = (\<lambda>c k. nextServer S (c + (of_nat k :: 32 word)))"
  have f0: "f c 0 = nextServer S c"
    by (simp add: f_def)
  have fS: "f (c + 1) k = f c (Suc k)" for k
    unfolding f_def counter_shift ..
  show ?case
  proof (cases k)
    case 0
    with Cons.prems have "dial (f c 0) = None" by (simp add: f_def)
    then have "dialLoop dial S (x # rest) c lastErr dialled =
        (Inr (Conn (f c 0)), c + 1, dialled @ [f c 0])"
      by (simp add: f0 Let_def)
    with 0 show ?thesis by (simp add: f_def)
  next
    case (Suc k')
    from Cons.prems Suc have k': "k' < length rest" by simp
    from Cons.prems Suc have ok: "dial (f (c + 1) k') = None" by (simp add: fS) (simp add: f_def)
    from Cons.prems Suc have fails: "\<forall>j<Suc k'. dial (f c j) \<noteq> None" by (simp add: f_def)
    then have "dial (f c 0) \<noteq> None" by blast
    then obtain err where err: "dial (f c 0) = Some err" by auto
    have later: "\<forall>j<k'. dial (f (c + 1) j) \<noteq> None"
      using fails by (auto simp: fS)
    have IH: "dialLoop dial S rest (c + 1) (Some err) (dialled @ [f c 0]) =
       (Inr (Conn (f (c + 1) k')), (c + 1) + of_nat (Suc k'),
        (dialled @ [f c 0]) @ map (f (c + 1)) [0..<Suc k'])"
      using Cons.IH[of k' "c + 1" "Some err" "dialled @ [f c 0]"] k' ok later
      unfolding f_def by blast
    have step: "dialLoop dial S (x # rest) c lastErr dialled =
        dialLoop dial S rest (c + 1) (Some err) (dialled @ [f c 0])"
      using err by (simp add: f0)
    have cnt: "(c + 1) + of_nat (Suc k') = c + (of_nat (Suc (Suc k')) :: 32 word)"
      by simp
    have tr: "(dialled @ [f c 0]) @ map (f (c + 1)) [0..<Suc k'] =
        dialled @ map (f c) [0..<Suc (Suc k')]"
      by (simp add: upt_0_Suc_shift[of "f c" "Suc k'"] fS del: upt_Suc)
    have "dialLoop dial S (x # rest) c lastErr dialled =
        (Inr (Conn (f c (Suc k'))), c + of_nat (Suc (Suc k')), dialled @ map (f c) [0..<Suc (Suc k')])"
      unfolding step IH cnt tr fS ..
    with Suc show ?thesis
      unfolding f_def by simp
  qed
qed


lemma Dial_success:
  assumes "k < length (dnsServers r)"
    and "dial (nextServer (dnsServers r) (serverIndex r + of_nat k)) = None"
    and "\<forall>j<k. dial (nextServer (dnsServers r) (serverIndex r + of_nat j)) \<noteq> None"
  shows "Dial dial r =
     (Inr (Conn (nextServer (dnsServers r) (serverIndex r + of_nat k))),
      r\<lparr>serverIndex := serverIndex r + of_nat (Suc k)\<rparr>,
      map (\<lambda>j. nextServer (dnsServers r) (serverIndex r + of_nat j)) [0..<Suc k])"
  unfolding Dial_def dialLoop_first_success[OF assms] by simp

lemma Dial_failure:
  assumes "dnsServers r \<noteq> []"
    and "\<forall>k<length (dnsServers r). dial (nextServer (dnsServers r) (serverIndex r + of_nat k)) \<noteq> None"
  shows "Dial dial r =
     (Inl (AllDNSServersFailed
        (dial (nextServer (dnsServers r) (serverIndex r + of_nat (length (dnsServers r) - 1))))),
      r\<lparr>serverIndex := serverIndex r + of_nat (length (dnsServers r))\<rparr>,
      map (\<lambda>k. nextServer (dnsServers r) (serverIndex r + of_nat k)) [0..<length (dnsServers r)])"
  unfolding Dial_def dialLoop_all_fail[OF assms(2)] using assms(1) by simp

lemma dialSeq_all_up:
  assumes "dnsServers r \<noteq> []" and "\<forall>server. dial server = None"
  shows "dialSeq dial r m = map (\<lambda>k. nextServer (dnsServers r) (serverIndex r + of_nat k)) [0..<m]"
  using assms(1)
proof (induction m arbitrary: r)
  case 0
  then show ?case by simp
next
  case (Suc m)
  have first: "Dial dial r =
      (Inr (Conn (nextServer (dnsServers r) (serverIndex r))),
       r\<lparr>serverIndex := serverIndex r + 1\<rparr>, [nextServer (dnsServers r) (serverIndex r)])"
    using Dial_success[of 0 r dial] Suc.prems assms(2) by simp
  have rest: "dialSeq dial (r\<lparr>serverIndex := serverIndex r + 1\<rparr>) m =
      map (\<lambda>k. nextServer (dnsServers r) (serverIndex r + of_nat (Suc k))) [0..<m]"
    using Suc.IH[of "r\<lparr>serverIndex := serverIndex r + 1\<rparr>"] Suc.prems
    by (simp add: add.assoc)
  show ?case
    unfolding dialSeq.simps first upt_0_Suc_shift[of _ m] using rest by simp
qed

lemma nextServer_no_wrap:
  assumes "unat c + k < 2 ^ 32"
  shows "nextServer S (c + of_nat k) = S ! ((unat c + k) mod length S) @ defaultDNSPort"
proof -
  have k: "unat (of_nat k :: 32 word) = k"
    using assms by (simp add: unat_of_nat)
  then have "unat (c + of_nat k) = unat c + k"
    using assms unat_add_lem[of c "of_nat k"] by simp
  then show ?thesis by (simp add: nextServer_def)
qed


text \<open>
  At the wrap of the counter the cycle restarts at the first server: with three servers the
  attempts at the counter values \<open>2^32 - 1\<close> and \<open>0\<close> both dial the first one.
\<close>

lemma nextServer_at_wrap:
  "nextServer exampleServers 4294967295 = ''8.8.8.8:53''"
  "(4294967295 :: 32 word) + 1 = 0"
  "nextServer exampleServers 0 = ''8.8.8.8:53''"
  by (simp_all add: nextServer_def exampleServers_def defaultDNSPort_def)

lemma exampleServers_ne: "dnsServers (NewResolver 100 exampleServers) \<noteq> []"
  by (simp add: NewResolver_def exampleServers_def)

text \<open>
  C6, as the code has it. With a non-empty server list, the dial attempt made at counter
  value \<open>idx\<close> goes to \<^verbatim>\<open>dnsServers[idx mod N]\<close> (port 53 appended), and every attempt adds
  one to the \<^verbatim>\<open>uint32\<close> counter: a \<^verbatim>\<open>Dial\<close> whose first \<open>k\<close> attempts fail and whose
  next one connects has dialled the servers of the counter values \<open>c, c+1, \<dots>, c+k\<close> and
  leaves the counter at \<open>c+k+1\<close>; when all \<open>N\<close> attempts fail it has dialled the servers of
  \<open>c, \<dots>, c+N-1\<close> and fails with the aggregated error that wraps the failure of the last
  attempt. With no failures, \<open>m\<close> calls in a row dial the servers of the counter values
  \<open>c, \<dots>, c+m-1\<close>, the sum taken in 32 bits; that is \<^verbatim>\<open>dnsServers[(c+j) mod N]\<close> for
  \<open>j < m\<close>, the servers in order, cyclically, as long as the counter does not wrap
  (\<open>c + m \<le> 2^32\<close>).
\<close>

theorem Dial_round_robin:
  assumes "dnsServers r \<noteq> []"
  shows
    "nextServer (dnsServers r) idx =
       dnsServers r ! (unat idx mod length (dnsServers r)) @ defaultDNSPort \<and>
     (k < length (dnsServers r) \<and>
      dial (nextServer (dnsServers r) (serverIndex r + of_nat k)) = None \<and>
      (\<forall>j<k. dial (nextServer (dnsServers r) (serverIndex r + of_nat j)) \<noteq> None) \<longrightarrow>
        Dial dial r =
          (Inr (Conn (nextServer (dnsServers r) (serverIndex r + of_nat k))),
           r\<lparr>serverIndex := serverIndex r + of_nat (Suc k)\<rparr>,
           map (\<lambda>j. nextServer (dnsServers r) (serverIndex r + of_nat j)) [0..<Suc k])) \<and>
     ((\<forall>j<length (dnsServers r).
          dial (nextServer (dnsServers r) (serverIndex r + of_nat j)) \<noteq> None) \<longrightarrow>
        Dial dial r =
          (Inl (AllDNSServersFailed
             (dial (nextServer (dnsServers r)
                (serverIndex r + of_nat (length (dnsServers r) - 1))))),
           r\<lparr>serverIndex := serverIndex r + of_nat (length (dnsServers r))\<rparr>,
           map (\<lambda>j. nextServer (dnsServers r) (serverIndex r + of_nat j))
             [0..<length (dnsServers r)]) \<and>
        dial (nextServer (dnsServers r)
                (serverIndex r + of_nat (length (dnsServers r) - 1))) \<noteq> None) \<and>
     ((\<forall>server. dial server = None) \<longrightarrow>
        dialSeq dial r m =
          map (\<lambda>j. nextServer (dnsServers r) (serverIndex r + of_nat j)) [0..<m]) \<and>
     ((\<forall>server. dial server = None) \<and> unat (serverIndex r) + m \<le> 2 ^ 32 \<longrightarrow>
        dialSeq dial r m =
          map (\<lambda>j. dnsServers r ! ((unat (serverIndex r) + j) mod length (dnsServers r)) @
                     defaultDNSPort) [0..<m])"
proof (intro conjI impI)
  show "nextServer (dnsServers r) idx =
       dnsServers r ! (unat idx mod length (dnsServers r)) @ defaultDNSPort"
    by (simp add: nextServer_def)
next
  assume "k < length (dnsServers r) \<and>
      dial (nextServer (dnsServers r) (serverIndex r + of_nat k)) = None \<and>
      (\<forall>j<k. dial (nextServer (dnsServers r) (serverIndex r + of_nat j)) \<noteq> None)"
  then show "Dial dial r =
          (Inr (Conn (nextServer (dnsServers r) (serverIndex r + of_nat k))),
           r\<lparr>serverIndex := serverIndex r + of_nat (Suc k)\<rparr>,
           map (\<lambda>j. nextServer (dnsServers r) (serverIndex r + of_nat j)) [0..<Suc k])"
    using Dial_success[of k r dial] by blast
next
  assume fails: "\<forall>j<length (dnsServers r).
          dial (nextServer (dnsServers r) (serverIndex r + of_nat j)) \<noteq> None"
  then show "Dial dial r =
          (Inl (AllDNSServersFailed
             (dial (nextServer (dnsServers r)
                (serverIndex r + of_nat (length (dnsServers r) - 1))))),
           r\<lparr>serverIndex := serverIndex r + of_nat (length (dnsServers r))\<rparr>,
           map (\<lambda>j. nextServer (dnsServers r) (serverIndex r + of_nat j))
             [0..<length (dnsServers r)])"
    by (rule Dial_failure[OF assms])
  from assms have "length (dnsServers r) - 1 < length (dnsServers r)"
    by (cases "dnsServers r") auto
  with fails show "dial (nextServer (dnsServers r)
                (serverIndex r + of_nat (length (dnsServers r) - 1))) \<noteq> None"
    by blast
next
  assume "\<forall>server. dial server = None"
  then show "dialSeq dial r m =
          map (\<lambda>j. nextServer (dnsServers r) (serverIndex r + of_nat j)) [0..<m]"
    by (rule dialSeq_all_up[OF assms])
next
  assume a: "(\<forall>server. dial server = None) \<and> unat (serverIndex r) + m \<le> 2 ^ 32"
  then have "dialSeq dial r m =
          map (\<lambda>j. nextServer (dnsServers r) (serverIndex r + of_nat j)) [0..<m]"
    using dialSeq_all_up[OF assms] by blast
  also have "\<dots> = map (\<lambda>j. dnsServers r ! ((unat (serverIndex r) + j) mod length (dnsServers r)) @
                     defaultDNSPort) [0..<m]"
  proof (rule map_cong[OF refl])
    fix j assume "j \<in> set [0..<m]"
    then have "unat (serverIndex r) + j < 2 ^ 32" using a by simp
    then show "nextServer (dnsServers r) (serverIndex r + of_nat j) =
        dnsServers r ! ((unat (serverIndex r) + j) mod length (dnsServers r)) @ defaultDNSPort"
      by (rule nextServer_no_wrap)
  qed
  finally show "dialSeq dial r m =
          map (\<lambda>j. dnsServers r ! ((unat (serverIndex r) + j) mod length (dnsServers r)) @
                     defaultDNSPort) [0..<m]" .
qed

lemma upt_examples:
  "[0..<Suc 1] = [0, 1]" "[0..<3] = [0, 1, 2]" "[0..<4] = [0, 1, 2, 3]"
  by code_simp+

theorem Dial_round_robin_witness:
  "Dial allDown (NewResolver 100 exampleServers) =
     (Inl (AllDNSServersFailed (Some (OpError ''1.1.1.1:53''))),
      (NewResolver 100 exampleServers)\<lparr>serverIndex := 3\<rparr>,
      [''8.8.8.8:53'', ''8.8.4.4:53'', ''1.1.1.1:53'']) \<and>
   Dial firstDown (NewResolver 100 exampleServers) =
     (Inr (Conn ''8.8.4.4:53''),
      (NewResolver 100 exampleServers)\<lparr>serverIndex := 2\<rparr>,
      [''8.8.8.8:53'', ''8.8.4.4:53'']) \<and>
   dialSeq allUp (NewResolver 100 exampleServers) 4 =
     [''8.8.8.8:53'', ''8.8.4.4:53'', ''1.1.1.1:53'', ''8.8.8.8:53'']"
proof -
  have S: "dnsServers (NewResolver 100 exampleServers) = exampleServers"
    and c: "serverIndex (NewResolver 100 exampleServers) = 0"
    by (simp_all add: NewResolver_def)
  have len: "length exampleServers = 3"
    by (simp add: exampleServers_def)
  have n: "nextServer exampleServers 0 = ''8.8.8.8:53''"
    "nextServer exampleServers 1 = ''8.8.4.4:53''"
    "nextServer exampleServers 2 = ''1.1.1.1:53''"
    "nextServer exampleServers 3 = ''8.8.8.8:53''"
    by (simp_all add: nextServer_def defaultDNSPort_def exampleServers_def)
  have "(\<forall>j<length exampleServers. allDown (nextServer exampleServers (0 + of_nat j)) \<noteq> None) \<longrightarrow>
        Dial allDown (NewResolver 100 exampleServers) =
          (Inl (AllDNSServersFailed
             (allDown (nextServer exampleServers (0 + of_nat (length exampleServers - 1))))),
           (NewResolver 100 exampleServers)\<lparr>serverIndex := 0 + of_nat (length exampleServers)\<rparr>,
           map (\<lambda>j. nextServer exampleServers (0 + of_nat j)) [0..<length exampleServers])"
    using Dial_round_robin[OF exampleServers_ne, of 0 0 allDown 0] unfolding S c by blast
  then have down: "Dial allDown (NewResolver 100 exampleServers) =
     (Inl (AllDNSServersFailed (Some (OpError ''1.1.1.1:53''))),
      (NewResolver 100 exampleServers)\<lparr>serverIndex := 3\<rparr>,
      [''8.8.8.8:53'', ''8.8.4.4:53'', ''1.1.1.1:53''])"
    unfolding len upt_examples by (simp add: allDown_def n)
  have "1 < length exampleServers \<and>
      firstDown (nextServer exampleServers (0 + of_nat 1)) = None \<and>
      (\<forall>j<1. firstDown (nextServer exampleServers (0 + of_nat j)) \<noteq> None) \<longrightarrow>
        Dial firstDown (NewResolver 100 exampleServers) =
          (Inr (Conn (nextServer exampleServers (0 + of_nat 1))),
           (NewResolver 100 exampleServers)\<lparr>serverIndex := 0 + of_nat (Suc 1)\<rparr>,
           map (\<lambda>j. nextServer exampleServers (0 + of_nat j)) [0..<Suc 1])"
    using Dial_round_robin[OF exampleServers_ne, of 0 1 firstDown 0] unfolding S c by blast
  then have first: "Dial firstDown (NewResolver 100 exampleServers) =
     (Inr (Conn ''8.8.4.4:53''),
      (NewResolver 100 exampleServers)\<lparr>serverIndex := 2\<rparr>,
      [''8.8.8.8:53'', ''8.8.4.4:53''])"
    unfolding len upt_examples by (simp add: firstDown_def n)
  have "(\<forall>server. allUp server = None) \<and> unat (0 :: 32 word) + 4 \<le> 2 ^ 32 \<longrightarrow>
        dialSeq allUp (NewResolver 100 exampleServers) 4 =
          map (\<lambda>j. exampleServers ! ((unat (0 :: 32 word) + j) mod length exampleServers) @
                     defaultDNSPort) [0..<4]"
    using Dial_round_robin[OF exampleServers_ne, of 0 0 allUp 4] unfolding S c by blast
  then have up: "dialSeq allUp (NewResolver 100 exampleServers) 4 =
     [''8.8.8.8:53'', ''8.8.4.4:53'', ''1.1.1.1:53'', ''8.8.8.8:53'']"
    unfolding len upt_examples by (simp add: allUp_def exampleServers_def defaultDNSPort_def)
  from down first up show ?thesis by simp
qed

text \<open>
  The claim as stated fails where the counter wraps: with three servers and no failures, the
  two attempts made at the counter values \<open>2^32 - 1\<close> and \<open>0\<close> both dial the first server,
  so sequential attempts do not go through the servers in order there.
\<close>

theorem Dial_round_robin_counterexample:
  "dnsServers ((NewResolver 100 exampleServers)\<lparr>serverIndex := 4294967295\<rparr>) =
     [''8.8.8.8'', ''8.8.4.4'', ''1.1.1.1''] \<and>
   Dial allUp ((NewResolver 100 exampleServers)\<lparr>serverIndex := 4294967295\<rparr>) =
     (Inr (Conn ''8.8.8.8:53''), (NewResolver 100 exampleServers)\<lparr>serverIndex := 0\<rparr>,
      [''8.8.8.8:53'']) \<and>
   Dial allUp ((NewResolver 100 exampleServers)\<lparr>serverIndex := 0\<rparr>) =
     (Inr (Conn ''8.8.8.8:53''), (NewResolver 100 exampleServers)\<lparr>serverIndex := 1\<rparr>,
      [''8.8.8.8:53'']) \<and>
   dialSeq allUp ((NewResolver 100 exampleServers)\<lparr>serverIndex := 4294967295\<rparr>) 2 =
     [''8.8.8.8:53'', ''8.8.8.8:53'']"
proof -
  have S: "dnsServers (NewResolver 100 exampleServers) = exampleServers"
    by (simp add: NewResolver_def)
  have len: "exampleServers \<noteq> []"
    by (simp add: exampleServers_def)
  have up: "allUp server = None" for server
    by (simp add: allUp_def)
  have w: "(4294967296 :: 32 word) = 0"
    by simp
  have c0: "dnsServers ((NewResolver 100 exampleServers)\<lparr>serverIndex := 4294967295\<rparr>) =
     [''8.8.8.8'', ''8.8.4.4'', ''1.1.1.1'']"
    by (simp add: NewResolver_def exampleServers_def)
  have d1: "Dial allUp ((NewResolver 100 exampleServers)\<lparr>serverIndex := 4294967295\<rparr>) =
     (Inr (Conn ''8.8.8.8:53''), (NewResolver 100 exampleServers)\<lparr>serverIndex := 0\<rparr>,
      [''8.8.8.8:53''])"
    using Dial_success[of 0 "(NewResolver 100 exampleServers)\<lparr>serverIndex := 4294967295\<rparr>" allUp]
    by (simp add: S len up nextServer_at_wrap w)
  have d2: "Dial allUp ((NewResolver 100 exampleServers)\<lparr>serverIndex := 0\<rparr>) =
     (Inr (Conn ''8.8.8.8:53''), (NewResolver 100 exampleServers)\<lparr>serverIndex := 1\<rparr>,
      [''8.8.8.8:53''])"
    using Dial_success[of 0 "(NewResolver 100 exampleServers)\<lparr>serverIndex := 0\<rparr>" allUp]
    by (simp add: S len up nextServer_at_wrap)
  have two: "dialSeq dial r 2 =
      (case Dial dial r of (res, r', dialled) \<Rightarrow>
         dialled @ (case Dial dial r' of (res', r'', dialled') \<Rightarrow> dialled'))" for dial r
    by (simp add: numeral_2_eq_2 split: prod.splits)
  have seq: "dialSeq allUp ((NewResolver 100 exampleServers)\<lparr>serverIndex := 4294967295\<rparr>) 2 =
     [''8.8.8.8:53'', ''8.8.8.8:53'']"
    unfolding two d1 by (simp add: d2)
  from c0 d1 d2 seq show ?thesis by blast
qed

section \<open>Literal IP addresses\<close>

lemma CacheCount_length: "CacheCount r = int (length (cache r))"
proof -
  have "fold (\<lambda>(key, value) count. count + 1) c (k :: int) = k + int (length c)" for c :: "(string \<times> cacheEntry) list" and k
    by (induction c arbitrary: k) (auto simp: case_prod_beta)
  then show ?thesis by (simp add: CacheCount_def)
qed

lemma resolveAddr_literal:
  assumes lit: "ParseIP n host \<noteq> []" and split: "SplitHostPort n address = Inr (host, port)"
  shows "resolveAddr n now now' r network address =
     (case Atoi port of
        Inl err \<Rightarrow> (Inl (InvalidPort port err), r)
      | Inr portNum \<Rightarrow>
          (case selectIP network host [ParseIP n host] of
             Inl err \<Rightarrow> (Inl err, r)
           | Inr ip \<Rightarrow> (Inr (ip, portNum), r)))"
  using assms by (simp add: resolveAddr_def lookupHost_literal split: sum.splits)

lemma resolveAddr_literal_frame:
  assumes lit: "ParseIP n host \<noteq> []" and split: "SplitHostPort n address = Inr (host, port)"
  shows "snd (resolveAddr n now now' r network address) = r"
  unfolding resolveAddr_literal[OF assms] by (simp split: sum.splits)

text \<open>
  C4, as the code has it. For a host string that \<^verbatim>\<open>ParseIP\<close> accepts, \<^verbatim>\<open>lookupHost\<close>
  returns that single address and the resolver untouched, whatever the cache holds; so
  \<^verbatim>\<open>resolveAddr\<close> on \<^verbatim>\<open>host:port\<close> leaves the resolver and its entry count unchanged.
  What \<^verbatim>\<open>resolveAddr\<close> returns is still subject to the port and to the family filter:
  an invalid port fails; with a valid port, a network outside the four filtered ones yields
  the address; \<^verbatim>\<open>tcp4\<close>/\<^verbatim>\<open>udp4\<close> yield it when it has a 4-byte form and the no-IPv4
  error otherwise; \<^verbatim>\<open>tcp6\<close>/\<^verbatim>\<open>udp6\<close> yield it when it has no 4-byte form (and a
  16-byte one) and the no-IPv6 error otherwise.
\<close>

theorem literal_IP_bypasses_cache:
  assumes lit: "ParseIP n host \<noteq> []"
  shows "lookupHost n now now' r host = (Inr [ParseIP n host], r) \<and>
    (SplitHostPort n address = Inr (host, port) \<longrightarrow>
       snd (resolveAddr n now now' r network address) = r \<and>
       CacheCount (snd (resolveAddr n now now' r network address)) = CacheCount r \<and>
       (\<forall>err. Atoi port = Inl err \<longrightarrow>
          fst (resolveAddr n now now' r network address) = Inl (InvalidPort port err)) \<and>
       (\<forall>portNum. Atoi port = Inr portNum \<longrightarrow>
          (network \<noteq> ''tcp4'' \<and> network \<noteq> ''udp4'' \<and> network \<noteq> ''tcp6'' \<and> network \<noteq> ''udp6'' \<longrightarrow>
             fst (resolveAddr n now now' r network address) = Inr (ParseIP n host, portNum)) \<and>
          (network = ''tcp4'' \<or> network = ''udp4'' \<longrightarrow>
             fst (resolveAddr n now now' r network address) =
               (if To4 (ParseIP n host) \<noteq> [] then Inr (ParseIP n host, portNum)
                else Inl (NoIPv4AddressFound host))) \<and>
          (network = ''tcp6'' \<or> network = ''udp6'' \<longrightarrow>
             fst (resolveAddr n now now' r network address) =
               (if To4 (ParseIP n host) = [] \<and> To16 (ParseIP n host) \<noteq> []
                then Inr (ParseIP n host, portNum)
                else Inl (NoIPv6AddressFound host)))))"
proof (intro conjI impI allI)
  show "lookupHost n now now' r host = (Inr [ParseIP n host], r)"
    using lit by (rule lookupHost_literal)
next
  assume split: "SplitHostPort n address = Inr (host, port)"
  show "snd (resolveAddr n now now' r network address) = r"
    by (rule resolveAddr_literal_frame[OF lit split])
  then show "CacheCount (snd (resolveAddr n now now' r network address)) = CacheCount r"
    by simp
next
  fix err
  assume split: "SplitHostPort n address = Inr (host, port)" and "Atoi port = Inl err"
  then show "fst (resolveAddr n now now' r network address) = Inl (InvalidPort port err)"
    by (simp add: resolveAddr_literal[OF lit split])
next
  fix portNum
  assume split: "SplitHostPort n address = Inr (host, port)" and port: "Atoi port = Inr portNum"
    and "network \<noteq> ''tcp4'' \<and> network \<noteq> ''udp4'' \<and> network \<noteq> ''tcp6'' \<and> network \<noteq> ''udp6''"
  then show "fst (resolveAddr n now now' r network address) = Inr (ParseIP n host, portNum)"
    by (simp add: resolveAddr_literal[OF lit split] selectIP_default)
next
  fix portNum
  assume split: "SplitHostPort n address = Inr (host, port)" and port: "Atoi port = Inr portNum"
    and nw: "network = ''tcp4'' \<or> network = ''udp4''"
  show "fst (resolveAddr n now now' r network address) =
               (if To4 (ParseIP n host) \<noteq> [] then Inr (ParseIP n host, portNum)
                else Inl (NoIPv4AddressFound host))"
    using port by (simp add: resolveAddr_literal[OF lit split] selectIP_v4[OF nw])
next
  fix portNum
  assume split: "SplitHostPort n address = Inr (host, port)" and port: "Atoi port = Inr portNum"
    and nw: "network = ''tcp6'' \<or> network = ''udp6''"
  show "fst (resolveAddr n now now' r network address) =
               (if To4 (ParseIP n host) = [] \<and> To16 (ParseIP n host) \<noteq> []
                then Inr (ParseIP n host, portNum)
                else Inl (NoIPv6AddressFound host))"
    using port by (simp add: resolveAddr_literal[OF lit split] selectIP_v6[OF nw])
qed

lemma literal_examples:
  "ParseIP exampleNet ''1.2.3.4'' = literalV4" "literalV4 \<noteq> []"
  "To4 literalV4 \<noteq> []" "To4 literalV6 = []" "To16 literalV6 \<noteq> []"
  "SplitHostPort exampleNet ''1.2.3.4:80'' = Inr (''1.2.3.4'', ''80'')"
  "SplitHostPort exampleNet ''1.2.3.4:-1'' = Inr (''1.2.3.4'', ''-1'')"
  by (simp_all add: exampleNet_ParseIP exampleNet_SplitHostPort literalV4_def literalV6_def
      To4_def To16_def)

theorem literal_IP_bypasses_cache_witness:
  "ParseIP exampleNet ''1.2.3.4'' \<noteq> [] \<and>
   lookupHost exampleNet 5 6 exampleResolver ''1.2.3.4'' = (Inr [literalV4], exampleResolver) \<and>
   resolveAddr exampleNet 5 6 exampleResolver ''tcp4'' ''1.2.3.4:80'' =
     (Inr (literalV4, 80), exampleResolver) \<and>
   resolveAddr exampleNet 5 6 exampleResolver ''udp'' ''1.2.3.4:80'' =
     (Inr (literalV4, 80), exampleResolver) \<and>
   resolveAddr exampleNet 5 6 exampleResolver ''tcp6'' ''1.2.3.4:80'' =
     (Inl (NoIPv6AddressFound ''1.2.3.4''), exampleResolver)"
proof -
  have lit: "ParseIP exampleNet ''1.2.3.4'' \<noteq> []"
    by (simp add: literal_examples)
  note th = literal_IP_bypasses_cache[OF lit, of 5 6 exampleResolver "''1.2.3.4:80''" "''80''"]
  have "resolveAddr exampleNet 5 6 exampleResolver ''tcp4'' ''1.2.3.4:80'' =
     (Inr (literalV4, 80), exampleResolver)"
    using th[of "''tcp4''"] by (simp add: literal_examples Atoi_80 prod_eq_iff)
  moreover have "resolveAddr exampleNet 5 6 exampleResolver ''udp'' ''1.2.3.4:80'' =
     (Inr (literalV4, 80), exampleResolver)"
    using th[of "''udp''"] by (simp add: literal_examples Atoi_80 prod_eq_iff)
  moreover have "resolveAddr exampleNet 5 6 exampleResolver ''tcp6'' ''1.2.3.4:80'' =
     (Inl (NoIPv6AddressFound ''1.2.3.4''), exampleResolver)"
    using th[of "''tcp6''"] by (simp add: literal_examples Atoi_80 prod_eq_iff)
  ultimately show ?thesis
    using th[of "''tcp''"] lit by (simp add: literal_examples)
qed

text \<open>
  The claim as stated fails for a literal of the other family: \<^verbatim>\<open>1.2.3.4\<close> parses as an
  IP address, and \<^verbatim>\<open>resolveAddr("tcp6", "1.2.3.4:80")\<close> returns the no-IPv6 error, not
  the address.
\<close>

theorem literal_IP_family_mismatch_counterexample:
  "ParseIP exampleNet ''1.2.3.4'' = literalV4 \<and> literalV4 \<noteq> [] \<and>
   resolveAddr exampleNet 5 6 exampleResolver ''tcp6'' ''1.2.3.4:80'' =
     (Inl (NoIPv6AddressFound ''1.2.3.4''), exampleResolver)"
  by (simp add: resolveAddr_literal[of exampleNet "''1.2.3.4''" "''1.2.3.4:80''" "''80''"]
      literal_examples Atoi_80 selectIP_def)

section \<open>The port\<close>

lemma ParseUint_digits: "ParseUint s k = Inr m \<Longrightarrow> list_all isDigit s"
  by (induction s arbitrary: k) (auto split: if_splits)

lemma Atoi_format:
  assumes "Atoi s = Inr p"
  shows "\<exists>sign ds. s = sign @ ds \<and> (sign = [] \<or> sign = ''+'' \<or> sign = ''-'') \<and>
           ds \<noteq> [] \<and> list_all isDigit ds"
proof (cases s)
  case Nil
  with assms show ?thesis by (simp add: Atoi_def)
next
  case (Cons c cs)
  show ?thesis
  proof (cases "c = CHR ''+'' \<or> c = CHR ''-''")
    case True
    with assms Cons obtain un where "cs \<noteq> []" "ParseUint cs 0 = Inr un"
      by (auto simp: Atoi_def Let_def split: if_splits sum.splits go_error.splits)
    then have "list_all isDigit cs" by (auto dest: ParseUint_digits)
    with True Cons \<open>cs \<noteq> []\<close> show ?thesis
      by (intro exI[of _ "[c]"] exI[of _ cs]) auto
  next
    case False
    with assms Cons obtain un where "ParseUint s 0 = Inr un"
      by (auto simp: Atoi_def Let_def split: if_splits sum.splits go_error.splits)
    then have "list_all isDigit s" by (auto dest: ParseUint_digits)
    with Cons show ?thesis
      by (intro exI[of _ "[]"] exI[of _ s]) auto
  qed
qed

lemma Atoi_range:
  assumes "Atoi s = Inr p"
  shows "- (2 ^ 63) \<le> p \<and> p < 2 ^ 63"
  using assms
  by (auto simp: Atoi_def Let_def split: if_splits sum.splits go_error.splits)


lemma ParseUint_value:
  "ParseUint s k = Inr m \<Longrightarrow> m = foldl (\<lambda>a c. a * 10 + (of_char c - 48)) k s"
  by (induction s arbitrary: k) (auto split: if_splits)

lemma Atoi_value:
  assumes "Atoi s = Inr p"
  shows "p = (if hd s = CHR ''-'' then - 1 else 1) *
             int (foldl (\<lambda>a c. a * 10 + (of_char c - 48)) 0
                    (if hd s = CHR ''+'' \<or> hd s = CHR ''-'' then tl s else s))"
proof -
  obtain un where "ParseUint (if hd s = CHR ''+'' \<or> hd s = CHR ''-'' then tl s else s) 0 = Inr un"
    and "p = (if hd s = CHR ''-'' then - int un else int un)"
    using assms by (auto simp: Atoi_def Let_def split: if_splits sum.splits go_error.splits)
  then show ?thesis
    by (auto dest!: ParseUint_value)
qed

declare digitsOf.simps [simp del]

lemma decimal_ge: "(k :: nat) \<le> foldl (\<lambda>a c. a * 10 + (of_char c - 48)) k s"
proof (induction s arbitrary: k)
  case Nil
  then show ?case by simp
next
  case (Cons c cs)
  have "k \<le> k * 10 + (of_char c - 48)" by simp
  also have "\<dots> \<le> foldl (\<lambda>a c. a * 10 + (of_char c - 48)) (k * 10 + (of_char c - 48)) cs"
    by (rule Cons.IH)
  finally show ?case by simp
qed

lemma ParseUint_complete:
  assumes "list_all isDigit s" and "foldl (\<lambda>a c. a * 10 + (of_char c - 48)) (k :: nat) s < 2 ^ 64"
  shows "ParseUint s k = Inr (foldl (\<lambda>a c. a * 10 + (of_char c - 48)) k s)"
  using assms
proof (induction s arbitrary: k)
  case Nil
  then show ?case by simp
next
  case (Cons c cs)
  let ?k' = "k * 10 + (of_char c - 48)"
  from Cons.prems have d: "isDigit c" and ds: "list_all isDigit cs"
    and v: "foldl (\<lambda>a c. a * 10 + (of_char c - 48)) ?k' cs < 2 ^ 64"
    by simp_all
  have "?k' \<le> foldl (\<lambda>a c. a * 10 + (of_char c - 48)) ?k' cs"
    by (rule decimal_ge)
  with v have k': "?k' < 2 ^ 64" by simp
  then have "k * 10 < 18446744073709551616" by simp
  then have k: "\<not> k \<ge> 2 ^ 64 div 10 + 1" by simp
  from k' have k'': "\<not> ?k' > 2 ^ 64 - 1" by simp
  have "ParseUint (c # cs) k = ParseUint cs ?k'"
    using d k k'' by (simp del: One_nat_def)
  also have "\<dots> = Inr (foldl (\<lambda>a c. a * 10 + (of_char c - 48)) ?k' cs)"
    using ds v by (rule Cons.IH)
  finally show ?case by simp
qed

lemma digit_not_sign: "isDigit c \<Longrightarrow> c \<noteq> CHR ''+'' \<and> c \<noteq> CHR ''-''"
  by (auto simp: isDigit_def)

lemma Atoi_digits:
  assumes ne: "ds \<noteq> []" and dig: "list_all isDigit ds"
  shows "(foldl (\<lambda>a c. a * 10 + (of_char c - 48)) (0 :: nat) ds < 2 ^ 63 \<longrightarrow>
            Atoi ds = Inr (int (foldl (\<lambda>a c. a * 10 + (of_char c - 48)) 0 ds)) \<and>
            Atoi (CHR ''+'' # ds) = Inr (int (foldl (\<lambda>a c. a * 10 + (of_char c - 48)) 0 ds))) \<and>
         (foldl (\<lambda>a c. a * 10 + (of_char c - 48)) (0 :: nat) ds \<le> 2 ^ 63 \<longrightarrow>
            Atoi (CHR ''-'' # ds) = Inr (- int (foldl (\<lambda>a c. a * 10 + (of_char c - 48)) 0 ds)))"
proof -
  let ?v = "foldl (\<lambda>a c. a * 10 + (of_char c - 48)) (0 :: nat) ds"
  from ne dig have "isDigit (hd ds)" by (cases ds) simp_all
  then have hd: "hd ds \<noteq> CHR ''+''" "hd ds \<noteq> CHR ''-''"
    using digit_not_sign by blast+
  have pu: "ParseUint ds 0 = Inr ?v" if "?v \<le> 2 ^ 63"
  proof -
    from that have "?v < 2 ^ 64" by simp
    with dig show ?thesis by (rule ParseUint_complete)
  qed
  show ?thesis
    using ne hd pu by (auto simp: Atoi_def Let_def)
qed

lemma digitsOf_ne: "digitsOf k \<noteq> []"
  by (subst digitsOf.simps) simp

lemma digitsOf_digits: "list_all isDigit (digitsOf k)"
proof (induction k rule: digitsOf.induct)
  case (1 k)
  show ?case
  proof (cases "k < 10")
    case True
    then show ?thesis by (subst digitsOf.simps) (simp add: isDigit_def)
  next
    case False
    have "k mod 10 < 10" by simp
    then have "isDigit (char_of (48 + k mod 10))"
      by (simp add: isDigit_def)
    with False 1 show ?thesis by (subst digitsOf.simps) simp
  qed
qed

lemma digitsOf_value: "foldl (\<lambda>a c. a * 10 + (of_char c - 48)) (0 :: nat) (digitsOf k) = k"
proof (induction k rule: digitsOf.induct)
  case (1 k)
  show ?case
  proof (cases "k < 10")
    case True
    then show ?thesis by (subst digitsOf.simps) simp
  next
    case False
    have "k mod 10 < 10" by simp
    then have "(of_char (char_of (48 + k mod 10) :: char) :: nat) - 48 = k mod 10"
      by simp
    with False 1 show ?thesis by (subst digitsOf.simps) simp
  qed
qed

lemma Atoi_Itoa:
  assumes "- (2 ^ 63) \<le> i" "i < 2 ^ 63"
  shows "Atoi (Itoa i) = Inr i"
proof (cases "i < 0")
  case True
  then have "nat (- i) \<le> 2 ^ 63" using assms by simp
  then show ?thesis
    using True Atoi_digits[OF digitsOf_ne digitsOf_digits, of "nat (- i)"]
    by (simp add: Itoa_def digitsOf_value)
next
  case False
  then have "nat i < 2 ^ 63" using assms by simp
  then show ?thesis
    using False Atoi_digits[OF digitsOf_ne digitsOf_digits, of "nat i"]
    by (simp add: Itoa_def digitsOf_value)
qed

lemma resolveAddr_accepted_port:
  assumes "SplitHostPort n address = Inr (host, port)" and "Atoi port = Inr portNum"
  shows "resolveAddr n now now' r network address =
     (case lookupHost n now now' r host of
        (Inl err, r') \<Rightarrow> (Inl err, r')
      | (Inr addrs, r') \<Rightarrow>
          (case selectIP network host addrs of
             Inl err \<Rightarrow> (Inl err, r')
           | Inr ip \<Rightarrow> (Inr (ip, portNum), r')))"
  using assms by (simp add: resolveAddr_def)

lemma resolveDNS_not_InvalidPort: "fst (resolveDNS n t r host) \<noteq> Inl (InvalidPort p e)"
  by (cases "LookupIP n (serverIndex r) host")
     (auto simp: resolveDNS_def split: sum.splits)

lemma lookupHost_not_InvalidPort: "fst (lookupHost n now now' r host) \<noteq> Inl (InvalidPort p e)"
  by (auto simp: lookupHost_def resolveDNS_not_InvalidPort split: option.splits)

lemma selectIP_not_InvalidPort: "selectIP network host addrs \<noteq> Inl (InvalidPort p e)"
  by (auto simp: selectIP_def split: list.splits)

lemma resolveAddr_accepted_port_not_refused:
  assumes "SplitHostPort n address = Inr (host, port)" and "Atoi port = Inr portNum"
  shows "fst (resolveAddr n now now' r network address) \<noteq> Inl (InvalidPort p e)"
proof -
  obtain res r' where look: "lookupHost n now now' r host = (res, r')"
    by (cases "lookupHost n now now' r host")
  show ?thesis
  proof (cases res)
    case (Inl err)
    with look lookupHost_not_InvalidPort[of n now now' r host p e] show ?thesis
      by (simp add: resolveAddr_accepted_port[OF assms])
  next
    case (Inr addrs)
    with look selectIP_not_InvalidPort[of network host addrs p e] show ?thesis
      by (cases "selectIP network host addrs") (simp_all add: resolveAddr_accepted_port[OF assms])
  qed
qed

lemma resolveAddr_bad_port:
  assumes "SplitHostPort n address = Inr (host, port)" and "Atoi port = Inl err"
  shows "resolveAddr n now now' r network address = (Inl (InvalidPort port err), r)"
  using assms by (simp add: resolveAddr_def)

lemma resolveAddr_port_returned:
  assumes "SplitHostPort n address = Inr (host, port)" and "Atoi port = Inr portNum"
    and "resolveAddr n now now' r network address = (Inr (ip, q), r')"
  shows "q = portNum"
  using assms by (auto simp: resolveAddr_def split: prod.splits sum.splits)

text \<open>
  C7, as the code has it. \<^verbatim>\<open>resolveAddr\<close> parses the port with \<^verbatim>\<open>strconv.Atoi\<close>, before
  and independently of any lookup of the host: a port that \<^verbatim>\<open>Atoi\<close> rejects fails with the
  invalid-port error and leaves the resolver untouched, whatever the host, the network and
  the cache; a port that is not an optional sign followed by one or more decimal digits is
  rejected; an accepted port is the signed decimal value of its digits, lies in the 64-bit
  range and is returned as parsed, with no check of its sign. No accepted port is refused:
  with an accepted port the result is what the lookup and the family selection give, the
  parsed number attached, and it is never the invalid-port error. Every optionally signed
  string of decimal digits whose value fits 64 bits is accepted, so the decimal text of
  every \<^verbatim>\<open>int\<close>, negative ones included, is a port \<^verbatim>\<open>resolveAddr\<close> takes.
\<close>

theorem resolveAddr_port:
  assumes split: "SplitHostPort n address = Inr (host, port)"
  shows
   "(\<forall>err. Atoi port = Inl err \<longrightarrow>
       resolveAddr n now now' r network address = (Inl (InvalidPort port err), r)) \<and>
    ((\<nexists>sign ds. port = sign @ ds \<and> (sign = [] \<or> sign = ''+'' \<or> sign = ''-'') \<and>
        ds \<noteq> [] \<and> list_all isDigit ds) \<longrightarrow>
       (\<exists>err. resolveAddr n now now' r network address = (Inl (InvalidPort port err), r))) \<and>
    (\<forall>portNum. Atoi port = Inr portNum \<longrightarrow>
       - (2 ^ 63) \<le> portNum \<and> portNum < 2 ^ 63 \<and>
       portNum = (if hd port = CHR ''-'' then - 1 else 1) *
         int (foldl (\<lambda>a c. a * 10 + (of_char c - 48)) 0
                (if hd port = CHR ''+'' \<or> hd port = CHR ''-'' then tl port else port)) \<and>
       (\<forall>ip q r'. resolveAddr n now now' r network address = (Inr (ip, q), r') \<longrightarrow>
          q = portNum) \<and>
       resolveAddr n now now' r network address =
         (case lookupHost n now now' r host of
            (Inl err, r') \<Rightarrow> (Inl err, r')
          | (Inr addrs, r') \<Rightarrow>
              (case selectIP network host addrs of
                 Inl err \<Rightarrow> (Inl err, r')
               | Inr ip \<Rightarrow> (Inr (ip, portNum), r'))) \<and>
       (\<forall>p e. fst (resolveAddr n now now' r network address) \<noteq> Inl (InvalidPort p e))) \<and>
    (\<forall>ds. ds \<noteq> [] \<and> list_all isDigit ds \<longrightarrow>
       (foldl (\<lambda>a c. a * 10 + (of_char c - 48)) (0 :: nat) ds < 2 ^ 63 \<longrightarrow>
          Atoi ds = Inr (int (foldl (\<lambda>a c. a * 10 + (of_char c - 48)) 0 ds)) \<and>
          Atoi (CHR ''+'' # ds) = Inr (int (foldl (\<lambda>a c. a * 10 + (of_char c - 48)) 0 ds))) \<and>
       (foldl (\<lambda>a c. a * 10 + (of_char c - 48)) (0 :: nat) ds \<le> 2 ^ 63 \<longrightarrow>
          Atoi (CHR ''-'' # ds) = Inr (- int (foldl (\<lambda>a c. a * 10 + (of_char c - 48)) 0 ds)))) \<and>
    (\<forall>i. - (2 ^ 63) \<le> i \<and> i < 2 ^ 63 \<longrightarrow>
       Atoi (Itoa i) = Inr i \<and>
       (port = Itoa i \<longrightarrow>
          resolveAddr n now now' r network address =
            (case lookupHost n now now' r host of
               (Inl err, r') \<Rightarrow> (Inl err, r')
             | (Inr addrs, r') \<Rightarrow>
                 (case selectIP network host addrs of
                    Inl err \<Rightarrow> (Inl err, r')
                  | Inr ip \<Rightarrow> (Inr (ip, i), r')))))"
proof (intro conjI allI impI)
  fix portNum assume "Atoi port = Inr portNum"
  then show "portNum = (if hd port = CHR ''-'' then - 1 else 1) *
         int (foldl (\<lambda>a c. a * 10 + (of_char c - 48)) 0
                (if hd port = CHR ''+'' \<or> hd port = CHR ''-'' then tl port else port))"
    by (rule Atoi_value)
next
  fix err assume "Atoi port = Inl err"
  then show "resolveAddr n now now' r network address = (Inl (InvalidPort port err), r)"
    by (rule resolveAddr_bad_port[OF split])
next
  assume bad: "\<nexists>sign ds. port = sign @ ds \<and> (sign = [] \<or> sign = ''+'' \<or> sign = ''-'') \<and>
        ds \<noteq> [] \<and> list_all isDigit ds"
  have "\<exists>err. Atoi port = Inl err"
  proof (cases "Atoi port")
    case (Inl err)
    then show ?thesis by blast
  next
    case (Inr p)
    from Atoi_format[OF this] bad show ?thesis by blast
  qed
  then show "\<exists>err. resolveAddr n now now' r network address = (Inl (InvalidPort port err), r)"
    using resolveAddr_bad_port[OF split] by blast
next
  fix portNum assume "Atoi port = Inr portNum"
  then show "- (2 ^ 63) \<le> portNum" "portNum < 2 ^ 63"
    using Atoi_range by blast+
next
  fix portNum ip q r'
  assume "Atoi port = Inr portNum"
    and "resolveAddr n now now' r network address = (Inr (ip, q), r')"
  then show "q = portNum"
    by (rule resolveAddr_port_returned[OF split])
next
  fix portNum assume "Atoi port = Inr portNum"
  then show "resolveAddr n now now' r network address =
         (case lookupHost n now now' r host of
            (Inl err, r') \<Rightarrow> (Inl err, r')
          | (Inr addrs, r') \<Rightarrow>
              (case selectIP network host addrs of
                 Inl err \<Rightarrow> (Inl err, r')
               | Inr ip \<Rightarrow> (Inr (ip, portNum), r')))"
    by (rule resolveAddr_accepted_port[OF split])
next
  fix portNum p e assume "Atoi port = Inr portNum"
  then show "fst (resolveAddr n now now' r network address) \<noteq> Inl (InvalidPort p e)"
    by (rule resolveAddr_accepted_port_not_refused[OF split])
next
  fix ds assume "ds \<noteq> [] \<and> list_all isDigit ds"
  then have ds: "ds \<noteq> []" "list_all isDigit ds" by simp_all
  note acc = Atoi_digits[OF ds]
  {
    assume "foldl (\<lambda>a c. a * 10 + (of_char c - 48)) (0 :: nat) ds < 2 ^ 63"
    with acc show "Atoi ds = Inr (int (foldl (\<lambda>a c. a * 10 + (of_char c - 48)) 0 ds))"
      and "Atoi (CHR ''+'' # ds) = Inr (int (foldl (\<lambda>a c. a * 10 + (of_char c - 48)) 0 ds))"
      by blast+
  }
  {
    assume "foldl (\<lambda>a c. a * 10 + (of_char c - 48)) (0 :: nat) ds \<le> 2 ^ 63"
    with acc show "Atoi (CHR ''-'' # ds) = Inr (- int (foldl (\<lambda>a c. a * 10 + (of_char c - 48)) 0 ds))"
      by blast
  }
next
  fix i :: int assume "- (2 ^ 63) \<le> i \<and> i < 2 ^ 63"
  then have acc: "Atoi (Itoa i) = Inr i"
    using Atoi_Itoa by blast
  then show "Atoi (Itoa i) = Inr i" .
  assume "port = Itoa i"
  with acc have "Atoi port = Inr i" by simp
  then show "resolveAddr n now now' r network address =
            (case lookupHost n now now' r host of
               (Inl err, r') \<Rightarrow> (Inl err, r')
             | (Inr addrs, r') \<Rightarrow>
                 (case selectIP network host addrs of
                    Inl err \<Rightarrow> (Inl err, r')
                  | Inr ip \<Rightarrow> (Inr (ip, i), r')))"
    by (rule resolveAddr_accepted_port[OF split])
qed

lemma port_examples:
  "SplitHostPort exampleNet ''example.com:http'' = Inr (''example.com'', ''http'')"
  "SplitHostPort exampleNet ''example.com:-1'' = Inr (''example.com'', ''-1'')"
  "Atoi ''http'' = Inl ErrSyntax" "Atoi ''-1'' = Inr (- 1)"
  by (simp_all add: exampleNet_SplitHostPort Atoi_def isDigit_def)

lemma Itoa_examples: "Itoa (- 1) = ''-1''" "Itoa 80 = ''80''"
  by code_simp+

theorem resolveAddr_port_witness:
  "resolveAddr exampleNet 5 6 exampleResolver ''tcp'' ''example.com:http'' =
     (Inl (InvalidPort ''http'' ErrSyntax), exampleResolver) \<and>
   Atoi (Itoa 80) = Inr 80 \<and>
   resolveAddr exampleNet 5 6 exampleResolver ''tcp'' ''example.com:80'' =
     (Inr (exampleV6, 80), exampleResolver) \<and>
   Atoi (Itoa (- 1)) = Inr (- 1) \<and>
   resolveAddr exampleNet 5 6 exampleResolver ''udp4'' ''example.com:-1'' =
     (Inr (exampleV4, - 1), exampleResolver)"
proof -
  have bad: "resolveAddr exampleNet 5 6 exampleResolver ''tcp'' ''example.com:http'' =
     (Inl (InvalidPort ''http'' ErrSyntax), exampleResolver)"
    using resolveAddr_port[OF port_examples(1), of 5 6 exampleResolver "''tcp''"]
    by (simp add: port_examples)
  have hit: "lookupHost exampleNet 5 6 exampleResolver ''example.com'' =
      (Inr [exampleV6, exampleV4], exampleResolver)"
    using lookupHost_hit[OF example_not_literal example_entry, of 5 6] by simp
  have sel: "selectIP ''tcp'' ''example.com'' [exampleV6, exampleV4] = Inr exampleV6"
    "selectIP ''udp4'' ''example.com'' [exampleV6, exampleV4] = Inr exampleV4"
    by (simp_all add: selectIP_def To4_def exampleV4_def exampleV6_def)
  have r1: "(- (2 ^ 63) :: int) \<le> 80 \<and> (80 :: int) < 2 ^ 63"
    and r2: "(- (2 ^ 63) :: int) \<le> - 1 \<and> (- 1 :: int) < 2 ^ 63"
    by simp_all
  have pos: "Atoi (Itoa 80) = Inr 80 \<and>
      resolveAddr exampleNet 5 6 exampleResolver ''tcp'' ''example.com:80'' =
        (Inr (exampleV6, 80), exampleResolver)"
    using resolveAddr_port[OF example_split, of 5 6 exampleResolver "''tcp''", THEN conjunct2,
        THEN conjunct2, THEN conjunct2, THEN conjunct2, rule_format, of 80, OF r1]
    by (simp add: Itoa_examples hit sel)
  have neg: "Atoi (Itoa (- 1)) = Inr (- 1) \<and>
      resolveAddr exampleNet 5 6 exampleResolver ''udp4'' ''example.com:-1'' =
        (Inr (exampleV4, - 1), exampleResolver)"
    using resolveAddr_port[OF port_examples(2), of 5 6 exampleResolver "''udp4''", THEN conjunct2,
        THEN conjunct2, THEN conjunct2, THEN conjunct2, rule_format, of "- 1", OF r2]
    by (simp add: Itoa_examples hit sel)
  from bad pos neg show ?thesis by simp
qed

text \<open>
  The claim as stated fails for a negative port: \<^verbatim>\<open>resolveAddr("tcp", "example.com:-1")\<close>
  succeeds with port \<open>-1\<close>.
\<close>

theorem resolveAddr_negative_port_counterexample:
  "SplitHostPort exampleNet ''example.com:-1'' = Inr (''example.com'', ''-1'') \<and>
   resolveAddr exampleNet 5 6 exampleResolver ''tcp'' ''example.com:-1'' =
     (Inr (exampleV6, - 1), exampleResolver) \<and> \<not> (0 :: int) \<le> - 1"
proof -
  have hit: "lookupHost exampleNet 5 6 exampleResolver ''example.com'' =
      (Inr [exampleV6, exampleV4], exampleResolver)"
    using lookupHost_hit[OF example_not_literal example_entry, of 5 6] by simp
  show ?thesis
    by (simp add: resolveAddr_select[OF port_examples(2) port_examples(4) hit] selectIP_def
        port_examples)
qed

section \<open>Failed resolutions\<close>

text \<open>
  C3, as the code has it. When the backend fails, or succeeds with no address,
  \<^verbatim>\<open>resolveDNS\<close> returns the error it builds from that outcome (lookup failed, wrapping the
  backend's error; or no IP addresses found) and leaves the cache and the launched
  goroutines as they were. The error reaches the caller unchanged: \<^verbatim>\<open>lookupHost\<close>,
  \<^verbatim>\<open>resolveAddr\<close> and the two exported entry points, which resolve synchronously only
  when the host has no unexpired entry, return exactly that error, and the cache they leave
  is the one they found less the host's expired entry, which \<^verbatim>\<open>lookupHost\<close> deletes before
  the resolution starts: every other host's entry is as it was, and nothing is deleted when
  the host had no entry. A background refresh that fails leaves the cache, the host's still
  valid entry included, untouched.
\<close>

theorem resolveDNS_failure_keeps_cache:
  assumes fail: "fst (LookupIP n (serverIndex r) host) = Inl e \<or>
                 fst (LookupIP n (serverIndex r) host) = Inr []"
  shows
   "fst (resolveDNS n now' r host) =
      (case fst (LookupIP n (serverIndex r) host) of
         Inl e \<Rightarrow> Inl (LookupFailed host e) | Inr a \<Rightarrow> Inl (NoIPAddressesFound host)) \<and>
    cache (snd (resolveDNS n now' r host)) = cache r \<and>
    goroutines (snd (resolveDNS n now' r host)) = goroutines r \<and>
    (ParseIP n host = [] \<and> (\<forall>ce. Load (cache r) host = Some ce \<longrightarrow> expires ce \<le> now) \<longrightarrow>
       fst (lookupHost n now now' r host) = fst (resolveDNS n now' r host) \<and>
       cache (snd (lookupHost n now now' r host)) = Delete (cache r) host \<and>
       (\<forall>port portNum. SplitHostPort n address = Inr (host, port) \<and> Atoi port = Inr portNum \<longrightarrow>
          fst (resolveAddr n now now' r network address) =
            (case fst (LookupIP n (serverIndex r) host) of
               Inl e \<Rightarrow> Inl (LookupFailed host e) | Inr a \<Rightarrow> Inl (NoIPAddressesFound host)) \<and>
          fst (ResolveTCPAddr n now now' r network address) =
            (case fst (LookupIP n (serverIndex r) host) of
               Inl e \<Rightarrow> Inl (LookupFailed host e) | Inr a \<Rightarrow> Inl (NoIPAddressesFound host)) \<and>
          fst (ResolveUDPAddr n now now' r network address) =
            (case fst (LookupIP n (serverIndex r) host) of
               Inl e \<Rightarrow> Inl (LookupFailed host e) | Inr a \<Rightarrow> Inl (NoIPAddressesFound host)) \<and>
          cache (snd (resolveAddr n now now' r network address)) = Delete (cache r) host)) \<and>
    (\<forall>h. h \<noteq> host \<longrightarrow> Load (Delete (cache r) host) h = Load (cache r) h) \<and>
    Load (Delete (cache r) host) host = None \<and>
    (Load (cache r) host = None \<longrightarrow> Delete (cache r) host = cache r) \<and>
    (i < length (goroutines r) \<and> goroutines r ! i = host \<longrightarrow>
       cache (runGoroutine n now' r i) = cache r)"
proof -
  define err where "err = (case fst (LookupIP n (serverIndex r) host) of
         Inl e \<Rightarrow> LookupFailed host e | Inr a \<Rightarrow> NoIPAddressesFound host)"
  have errcase: "(case fst (LookupIP n (serverIndex r) host) of
         Inl e \<Rightarrow> Inl (LookupFailed host e) | Inr a \<Rightarrow> Inl (NoIPAddressesFound host)) = Inl err"
    by (simp add: err_def split: sum.splits)
  have dns: "resolveDNS n t r1 host = (Inl err, r1\<lparr>serverIndex := snd (LookupIP n (serverIndex r) host)\<rparr>)"
    if "serverIndex r1 = serverIndex r" for r1 t
    using fail that
    by (auto simp: err_def resolveDNS_failure resolveDNS_empty)
  have A: "fst (resolveDNS n now' r host) = Inl err"
    and B: "cache (snd (resolveDNS n now' r host)) = cache r"
    and C: "goroutines (snd (resolveDNS n now' r host)) = goroutines r"
    by (simp_all add: dns)
  have D: "fst (lookupHost n now now' r host) = fst (resolveDNS n now' r host) \<and>
       cache (snd (lookupHost n now now' r host)) = Delete (cache r) host \<and>
       (\<forall>port portNum. SplitHostPort n address = Inr (host, port) \<and> Atoi port = Inr portNum \<longrightarrow>
          fst (resolveAddr n now now' r network address) = Inl err \<and>
          fst (ResolveTCPAddr n now now' r network address) = Inl err \<and>
          fst (ResolveUDPAddr n now now' r network address) = Inl err \<and>
          cache (snd (resolveAddr n now now' r network address)) = Delete (cache r) host)"
    if nolit: "ParseIP n host = []" and old: "\<forall>ce. Load (cache r) host = Some ce \<longrightarrow> expires ce \<le> now"
  proof -
    have look: "lookupHost n now now' r host =
        (Inl err, r\<lparr>serverIndex := snd (LookupIP n (serverIndex r) host), cache := Delete (cache r) host\<rparr>)"
    proof (cases "Load (cache r) host")
      case None
      then show ?thesis
        by (simp add: lookupHost_miss[OF nolit] dns Delete_absent)
    next
      case (Some ce)
      with old have "expires ce \<le> now" by blast
      then show ?thesis
        by (simp add: lookupHost_expired[OF nolit Some] dns)
    qed
    then show ?thesis
      by (auto simp: A resolveAddr_def ResolveTCPAddr_def ResolveUDPAddr_def)
  qed
  have E: "cache (runGoroutine n now' r i) = cache r"
    if "i < length (goroutines r)" "goroutines r ! i = host"
    using that by (simp add: runGoroutine_def dns)
  show ?thesis
    unfolding errcase using A B C D E
    by (simp add: Load_Delete Delete_absent)
qed

theorem resolveDNS_failure_keeps_cache_witness:
  "resolveAddr exampleNet 5 6 exampleResolver ''tcp'' ''nosuch.example:80'' =
     (Inl (LookupFailed ''nosuch.example'' (DNSError ''no such host'')), exampleResolver) \<and>
   resolveAddr exampleNet 5 6 exampleResolver ''tcp'' ''empty.example:80'' =
     (Inl (NoIPAddressesFound ''empty.example''), exampleResolver) \<and>
   resolveAddr downNet 100 101 exampleResolver ''tcp'' ''example.com:80'' =
     (Inl (LookupFailed ''example.com'' (DNSError ''i/o timeout'')),
      exampleResolver\<lparr>cache := []\<rparr>) \<and>
   cache (runGoroutine downNet 95 (exampleResolver\<lparr>goroutines := [''example.com'']\<rparr>) 0) =
     cache exampleResolver"
proof -
  have f1: "fst (LookupIP exampleNet (serverIndex exampleResolver) ''nosuch.example'') =
      Inl (DNSError ''no such host'')"
    and f2: "fst (LookupIP exampleNet (serverIndex exampleResolver) ''empty.example'') = Inr []"
    and f3: "fst (LookupIP downNet (serverIndex r) ''example.com'') = Inl (DNSError ''i/o timeout'')"
    for r
    by (simp_all add: exampleNet_LookupIP downNet_fields)
  have s1: "SplitHostPort exampleNet ''nosuch.example:80'' = Inr (''nosuch.example'', ''80'')"
    and s2: "SplitHostPort exampleNet ''empty.example:80'' = Inr (''empty.example'', ''80'')"
    and s3: "SplitHostPort downNet ''example.com:80'' = Inr (''example.com'', ''80'')"
    by (simp_all add: exampleNet_SplitHostPort downNet_fields)
  have p: "ParseIP exampleNet ''nosuch.example'' = []" "ParseIP exampleNet ''empty.example'' = []"
    "ParseIP downNet ''example.com'' = []"
    by (simp_all add: exampleNet_ParseIP downNet_fields)
  have l: "Load (cache exampleResolver) ''nosuch.example'' = None"
    "Load (cache exampleResolver) ''empty.example'' = None"
    by (simp_all add: exampleResolver_eq Load_def)
  have idx: "snd (LookupIP exampleNet c h) = c" "snd (LookupIP downNet c h) = c" for c h
    by (simp_all add: exampleNet_LookupIP downNet_fields)
  have del: "Delete (cache exampleResolver) ''example.com'' = []"
    by (simp add: exampleResolver_eq Delete_def)
  have "fst (resolveAddr exampleNet 5 6 exampleResolver ''tcp'' ''nosuch.example:80'') =
      Inl (LookupFailed ''nosuch.example'' (DNSError ''no such host'')) \<and>
    cache (snd (resolveAddr exampleNet 5 6 exampleResolver ''tcp'' ''nosuch.example:80'')) =
      cache exampleResolver"
    using resolveDNS_failure_keeps_cache[of exampleNet exampleResolver "''nosuch.example''"
        "DNSError ''no such host''" 6 5 "''nosuch.example:80''" "''tcp''" 0]
    by (simp add: f1 s1 p l Atoi_80 Delete_absent)
  moreover have "fst (resolveAddr exampleNet 5 6 exampleResolver ''tcp'' ''empty.example:80'') =
      Inl (NoIPAddressesFound ''empty.example'') \<and>
    cache (snd (resolveAddr exampleNet 5 6 exampleResolver ''tcp'' ''empty.example:80'')) =
      cache exampleResolver"
    using resolveDNS_failure_keeps_cache[of exampleNet exampleResolver "''empty.example''"
        "DNSError ''no such host''" 6 5 "''empty.example:80''" "''tcp''" 0]
    by (simp add: f2 s2 p l Atoi_80 Delete_absent)
  moreover have "fst (resolveAddr downNet 100 101 exampleResolver ''tcp'' ''example.com:80'') =
      Inl (LookupFailed ''example.com'' (DNSError ''i/o timeout'')) \<and>
    cache (snd (resolveAddr downNet 100 101 exampleResolver ''tcp'' ''example.com:80'')) = []"
    using resolveDNS_failure_keeps_cache[of downNet exampleResolver "''example.com''"
        "DNSError ''i/o timeout''" 101 100 "''example.com:80''" "''tcp''" 0]
    by (simp add: f3 s3 p example_entry Atoi_80 del)
  moreover have "cache (runGoroutine downNet 95 (exampleResolver\<lparr>goroutines := [''example.com'']\<rparr>) 0) =
      cache exampleResolver"
    using resolveDNS_failure_keeps_cache[of downNet
        "exampleResolver\<lparr>goroutines := [''example.com'']\<rparr>" "''example.com''"
        "DNSError ''i/o timeout''" 95 0 "''example.com:80''" "''tcp''" 0]
    by (simp add: f3)
  moreover have "snd (resolveAddr exampleNet 5 6 exampleResolver ''tcp'' ''nosuch.example:80'') =
      exampleResolver"
    by (simp add: resolveAddr_def s1 Atoi_80 lookupHost_miss p l resolveDNS_failure[OF f1] idx)
  moreover have "snd (resolveAddr exampleNet 5 6 exampleResolver ''tcp'' ''empty.example:80'') =
      exampleResolver"
    by (simp add: resolveAddr_def s2 Atoi_80 lookupHost_miss p l resolveDNS_empty[OF f2] idx)
  moreover have "snd (resolveAddr downNet 100 101 exampleResolver ''tcp'' ''example.com:80'') =
      exampleResolver\<lparr>cache := []\<rparr>"
    by (simp add: resolveAddr_def s3 Atoi_80 lookupHost_expired[OF p(3) example_entry]
        resolveDNS_failure[OF f3] idx del)
  ultimately show ?thesis
    by (simp add: prod_eq_iff)
qed

text \<open>
  The claim as stated fails for an entry that has expired: \<^verbatim>\<open>example.com\<close> is cached with
  \<open>expires = 100\<close>; at time 100, with no DNS server reachable, the resolution fails, and the
  entry that was there before the call is gone after it.
\<close>

theorem resolveDNS_failure_keeps_cache_counterexample:
  "Load (cache exampleResolver) ''example.com'' =
     Some \<lparr>ips = [exampleV6, exampleV4], expires = 100, stale = 80\<rparr> \<and>
   fst (LookupIP downNet (serverIndex exampleResolver) ''example.com'') =
     Inl (DNSError ''i/o timeout'') \<and>
   resolveAddr downNet 100 101 exampleResolver ''tcp'' ''example.com:80'' =
     (Inl (LookupFailed ''example.com'' (DNSError ''i/o timeout'')),
      exampleResolver\<lparr>cache := []\<rparr>) \<and>
   Load (cache (snd (resolveAddr downNet 100 101 exampleResolver ''tcp'' ''example.com:80'')))
     ''example.com'' = None"
proof -
  have f: "fst (LookupIP downNet (serverIndex r) ''example.com'') = Inl (DNSError ''i/o timeout'')"
    for r
    by (simp add: downNet_fields)
  have idx: "snd (LookupIP downNet c h) = c" for c h
    by (simp add: downNet_fields)
  have sp: "SplitHostPort downNet ''example.com:80'' = Inr (''example.com'', ''80'')"
    by (simp add: exampleNet_SplitHostPort downNet_fields)
  have p: "ParseIP downNet ''example.com'' = []"
    by (simp add: exampleNet_ParseIP downNet_fields)
  have del: "Delete (cache exampleResolver) ''example.com'' = []"
    by (simp add: exampleResolver_eq Delete_def)
  have idx0: "exampleResolver\<lparr>serverIndex := serverIndex exampleResolver\<rparr> = exampleResolver"
    by simp
  have res: "resolveAddr downNet 100 101 exampleResolver ''tcp'' ''example.com:80'' =
     (Inl (LookupFailed ''example.com'' (DNSError ''i/o timeout'')),
      exampleResolver\<lparr>cache := []\<rparr>)"
    by (simp add: resolveAddr_def sp Atoi_80 lookupHost_expired[OF p example_entry]
        resolveDNS_failure[OF f] idx del)
  have gone: "Load [] ''example.com'' = None"
    by (simp add: Load_def)
  show ?thesis
    by (simp add: example_entry f res gone)
qed

section \<open>The TTL\<close>

text \<open>
  C10. \<^verbatim>\<open>SetTTL(d)\<close> stores \<open>d\<close> as it is, for every \<open>d\<close>, and touches no entry. For
  \<open>d \<le> 0\<close> the constructor would have substituted the default of five minutes;
  \<^verbatim>\<open>SetTTL\<close> does not, so an entry created afterwards at time \<open>now\<close> has
  \<open>expires = now + d \<le> now\<close>: it is expired from the start, and every later
  \<^verbatim>\<open>lookupHost\<close> of that host deletes it and resolves again.
\<close>

theorem SetTTL_stores_unchanged:
  "ttl (SetTTL r d) = d \<and> GetTTL (SetTTL r d) = d \<and> cache (SetTTL r d) = cache r \<and>
   (sint d \<le> 0 \<longrightarrow>
      ttl (NewResolver d servers) = defaultTTL \<and>
      (\<forall>addrs. fst (LookupIP n (serverIndex r) host) = Inr addrs \<and> addrs \<noteq> [] \<longrightarrow>
         Load (cache (snd (resolveDNS n now (SetTTL r d) host))) host =
           Some \<lparr>ips = addrs, expires = now + sint d,
                 stale = Add now (quo (d * refreshThreshold) 100)\<rparr> \<and>
         now + sint d \<le> now \<and>
         (\<forall>t t'. now \<le> t \<and> ParseIP n host = [] \<longrightarrow>
            lookupHost n t t' (snd (resolveDNS n now (SetTTL r d) host)) host =
              resolveDNS n t'
                ((snd (resolveDNS n now (SetTTL r d) host))
                   \<lparr>cache := Delete (cache (snd (resolveDNS n now (SetTTL r d) host))) host\<rparr>)
                host)))"
proof (intro conjI impI allI)
  show "ttl (SetTTL r d) = d" "GetTTL (SetTTL r d) = d" "cache (SetTTL r d) = cache r"
    by (simp_all add: SetTTL_def GetTTL_def)
next
  assume "sint d \<le> 0"
  then show "ttl (NewResolver d servers) = defaultTTL"
    by (simp add: NewResolver_def)
next
  fix addrs
  assume neg: "sint d \<le> 0"
    and ok: "fst (LookupIP n (serverIndex r) host) = Inr addrs \<and> addrs \<noteq> []"
  have idx: "serverIndex (SetTTL r d) = serverIndex r" and t: "ttl (SetTTL r d) = d"
    by (simp_all add: SetTTL_def)
  from ok have ok': "fst (LookupIP n (serverIndex (SetTTL r d)) host) = Inr addrs" "addrs \<noteq> []"
    by (simp_all add: idx)
  show entry: "Load (cache (snd (resolveDNS n now (SetTTL r d) host))) host =
           Some \<lparr>ips = addrs, expires = now + sint d,
                 stale = Add now (quo (d * refreshThreshold) 100)\<rparr>"
    by (simp add: resolveDNS_success[OF ok'] Load_Store t Add_def)
  show "now + sint d \<le> now"
    using neg by simp
  fix t t'
  assume "now \<le> t \<and> ParseIP n host = []"
  then have nolit: "ParseIP n host = []" and "expires \<lparr>ips = addrs, expires = now + sint d,
                 stale = Add now (quo (d * refreshThreshold) 100)\<rparr> \<le> t"
    using neg by simp_all
  then show "lookupHost n t t' (snd (resolveDNS n now (SetTTL r d) host)) host =
              resolveDNS n t'
                ((snd (resolveDNS n now (SetTTL r d) host))
                   \<lparr>cache := Delete (cache (snd (resolveDNS n now (SetTTL r d) host))) host\<rparr>)
                host"
    using lookupHost_expired[OF nolit entry] by blast
qed

theorem SetTTL_stores_unchanged_witness:
  "ttl (SetTTL (NewResolver 100 []) (- 100)) = - 100 \<and>
   ttl (NewResolver (- 100) []) = defaultTTL \<and>
   Load (cache (snd (resolveDNS exampleNet 0 (SetTTL (NewResolver 100 []) (- 100)) ''example.com'')))
       ''example.com'' =
     Some \<lparr>ips = [exampleV6, exampleV4], expires = - 100, stale = - 80\<rparr>"
proof -
  have neg: "sint (- 100 :: 64 word) \<le> 0" by simp
  have ok: "fst (LookupIP exampleNet (serverIndex (NewResolver 100 [])) ''example.com'') =
      Inr [exampleV6, exampleV4] \<and> [exampleV6, exampleV4] \<noteq> []"
    by (simp add: exampleNet_LookupIP)
  have q: "sint (quo (- (100 * refreshThreshold)) 100) = - 80"
    by (simp add: quo_def refreshThreshold_def signed_divide_int_def)
  show ?thesis
    using SetTTL_stores_unchanged[of "NewResolver 100 []" "- 100" "[]" exampleNet "''example.com''" 0]
      neg ok
    by (simp add: Add_def q)
qed

section \<open>The two instants of an entry\<close>

lemma sdiv_100_bounds:
  fixes x :: int
  assumes "- (2 ^ 63) \<le> x" "x < 2 ^ 63"
  shows "- (2 ^ 63) \<le> x sdiv 100" "x sdiv 100 < 2 ^ 63"
proof -
  have "x sdiv 100 = (if 0 \<le> x then x div 100 else - ((- x) div 100))"
    by (auto simp: signed_divide_int_def sgn_if)
  with assms show "- (2 ^ 63) \<le> x sdiv 100" "x sdiv 100 < 2 ^ 63"
    by (auto split: if_splits)
qed

lemma sint_quo_100: "sint (quo a 100) = sint a sdiv 100"
proof -
  have "- (2 ^ 63) \<le> sint a" "sint a < 2 ^ 63"
    using sint_ge[of a] sint_lt[of a] by simp_all
  then have "- (2 ^ 63) \<le> sint a sdiv 100" "sint a sdiv 100 < 2 ^ 63"
    by (rule sdiv_100_bounds)+
  then have "signed_take_bit 63 (sint a sdiv 100) = sint a sdiv 100"
    by (rule signed_take_bit_int_eq_self)
  then show ?thesis
    by (simp add: quo_def sint_sbintrunc')
qed

lemma stale_offset_le:
  fixes t :: Duration
  assumes "0 \<le> sint t"
  shows "sint (quo (t * refreshThreshold) 100) \<le> sint t"
proof -
  let ?w = "sint (t * 80)"
  have w: "- (2 ^ 63) \<le> ?w" "?w < 2 ^ 63"
    using sint_ge[of "t * 80"] sint_lt[of "t * 80"] by simp_all
  have sd: "?w sdiv 100 = (if 0 \<le> ?w then ?w div 100 else - ((- ?w) div 100))"
    by (auto simp: signed_divide_int_def sgn_if)
  show ?thesis
  proof (cases "sint t * 80 < 2 ^ 63")
    case True
    then have "signed_take_bit 63 (sint t * 80) = sint t * 80"
      using assms by (intro signed_take_bit_int_eq_self) auto
    then have "?w = sint t * 80"
      by (simp add: sint_word_ariths)
    moreover have "sint t * 80 sdiv 100 = (sint t * 80) div 100"
      using assms by (simp add: signed_divide_int_def sgn_if)
    moreover have "(sint t * 80) div 100 \<le> sint t"
      using assms by simp
    ultimately show ?thesis
      by (simp add: sint_quo_100 refreshThreshold_def)
  next
    case False
    then have big: "2 ^ 63 \<le> sint t * 80" by simp
    have "?w sdiv 100 \<le> 2 ^ 63 div 100"
      using w by (auto simp: sd intro: zdiv_mono1 order_trans[of _ 0])
    also have "\<dots> \<le> sint t"
      using big by simp
    finally show ?thesis
      by (simp add: sint_quo_100 refreshThreshold_def)
  qed
qed

lemma stale_offset_exact:
  fixes t :: Duration
  assumes "0 \<le> sint t" "sint t * 80 < 2 ^ 63"
  shows "sint (quo (t * refreshThreshold) 100) = (sint t * 80) div 100"
proof -
  have "signed_take_bit 63 (sint t * 80) = sint t * 80"
    using assms by (intro signed_take_bit_int_eq_self) auto
  then have "sint (t * 80) = sint t * 80"
    by (simp add: sint_word_ariths)
  then show ?thesis
    using assms by (simp add: sint_quo_100 refreshThreshold_def signed_divide_int_def sgn_if)
qed

lemma set_Store: "set (Store c host ce) \<subseteq> insert (host, ce) (set c)"
  unfolding Store_def by (induction c) auto

lemma set_Delete: "set (Delete c host) \<subseteq> set c"
  unfolding Delete_def by (auto simp: AList.delete_eq)

lemma set_ClearCache_fold:
  "set (fold (\<lambda>(key, value) c. Delete c key) xs c) \<subseteq> set c"
proof (induction xs arbitrary: c)
  case Nil
  then show ?case by simp
next
  case (Cons x xs)
  obtain k v where x: "x = (k, v)" by (cases x)
  have "set (fold (\<lambda>(key, value) c. Delete c key) xs (Delete c k)) \<subseteq> set (Delete c k)"
    by (rule Cons.IH)
  also have "\<dots> \<subseteq> set c" by (rule set_Delete)
  finally show ?case by (simp add: x)
qed

lemma RefreshCache_frame: "cache (RefreshCache r) = cache r \<and> ttl (RefreshCache r) = ttl r"
proof -
  have "cache (fold (\<lambda>host r1. r1\<lparr>goroutines := goroutines r1 @ [host]\<rparr>) hosts r) = cache r \<and>
        ttl (fold (\<lambda>host r1. r1\<lparr>goroutines := goroutines r1 @ [host]\<rparr>) hosts r) = ttl r"
    for hosts
    by (induction hosts arbitrary: r) auto
  then show ?thesis by (simp add: RefreshCache_def Let_def)
qed


lemma resolveDNS_ttl: "ttl (snd (resolveDNS n t r host)) = ttl r"
  by (cases "LookupIP n (serverIndex r) host")
     (auto simp: resolveDNS_def split: sum.splits)

lemma resolveDNS_entries:
  assumes "(h, e) \<in> set (cache (snd (resolveDNS n t r host)))"
  shows "(h, e) \<in> set (cache r) \<or> (\<exists>addrs. e = newEntry (ttl r) t addrs)"
proof (cases "LookupIP n (serverIndex r) host")
  case (Pair res idx)
  show ?thesis
  proof (cases res)
    case (Inl err)
    with Pair assms show ?thesis by (simp add: resolveDNS_def)
  next
    case (Inr addrs)
    show ?thesis
    proof (cases "addrs = []")
      case True
      with Pair Inr assms show ?thesis by (simp add: resolveDNS_def)
    next
      case False
      with Pair Inr assms
      have "(h, e) \<in> set (Store (cache r) host (newEntry (ttl r) t addrs))"
        by (simp add: resolveDNS_def newEntry_def)
      then have "(h, e) \<in> insert (host, newEntry (ttl r) t addrs) (set (cache r))"
        using set_Store by blast
      then show ?thesis by auto
    qed
  qed
qed

lemma lookupHost_ttl: "ttl (snd (lookupHost n now now' r host)) = ttl r"
  by (auto simp: lookupHost_def resolveDNS_ttl split: option.splits)

lemma lookupHost_entries:
  assumes "(h, e) \<in> set (cache (snd (lookupHost n now now' r host)))"
  shows "(h, e) \<in> set (cache r) \<or> (\<exists>addrs. e = newEntry (ttl r) now' addrs)"
proof (cases "ParseIP n host = []")
  case False
  with assms show ?thesis by (simp add: lookupHost_literal)
next
  case nolit: True
  show ?thesis
  proof (cases "Load (cache r) host")
    case None
    with assms nolit have "(h, e) \<in> set (cache (snd (resolveDNS n now' r host)))"
      by (simp add: lookupHost_miss)
    then show ?thesis by (rule resolveDNS_entries)
  next
    case (Some ce)
    show ?thesis
    proof (cases "now < expires ce")
      case True
      with assms show ?thesis
        by (simp add: lookupHost_hit[OF nolit Some] split: if_splits)
    next
      case False
      with assms
      have "(h, e) \<in> set (cache (snd (resolveDNS n now' (r\<lparr>cache := Delete (cache r) host\<rparr>) host)))"
        by (simp add: lookupHost_expired[OF nolit Some])
      then have "(h, e) \<in> set (Delete (cache r) host) \<or> (\<exists>addrs. e = newEntry (ttl r) now' addrs)"
        using resolveDNS_entries[of h e n now' "r\<lparr>cache := Delete (cache r) host\<rparr>" host] by simp
      then show ?thesis using set_Delete by blast
    qed
  qed
qed

lemma resolveAddr_state:
  "snd (resolveAddr n now now' r network address) = r \<or>
   (\<exists>host. snd (resolveAddr n now now' r network address) = snd (lookupHost n now now' r host))"
proof (cases "SplitHostPort n address")
  case (Inl err)
  then show ?thesis by (simp add: resolveAddr_def)
next
  case (Inr hp)
  obtain host port where hp: "hp = (host, port)" by (cases hp)
  show ?thesis
  proof (cases "Atoi port")
    case (Inl err)
    with Inr hp show ?thesis by (simp add: resolveAddr_def)
  next
    case port: (Inr portNum)
    obtain res r' where look: "lookupHost n now now' r host = (res, r')"
      by (cases "lookupHost n now now' r host")
    have "snd (resolveAddr n now now' r network address) = r'"
      using Inr hp port look
      by (cases res; cases "selectIP network host (projr res)") (simp_all add: resolveAddr_def)
    with look show ?thesis by (metis snd_conv)
  qed
qed

lemma resolveAddr_entries:
  assumes "(h, e) \<in> set (cache (snd (resolveAddr n now now' r network address)))"
  shows "(h, e) \<in> set (cache r) \<or> (\<exists>addrs. e = newEntry (ttl r) now' addrs)"
proof -
  from resolveAddr_state[of n now now' r network address] show ?thesis
  proof
    assume "snd (resolveAddr n now now' r network address) = r"
    with assms show ?thesis by simp
  next
    assume "\<exists>host. snd (resolveAddr n now now' r network address) =
        snd (lookupHost n now now' r host)"
    then obtain host where "snd (resolveAddr n now now' r network address) =
        snd (lookupHost n now now' r host)" ..
    with assms have "(h, e) \<in> set (cache (snd (lookupHost n now now' r host)))" by simp
    then show ?thesis by (rule lookupHost_entries)
  qed
qed

lemma resolveAddr_ttl: "ttl (snd (resolveAddr n now now' r network address)) = ttl r"
  using resolveAddr_state[of n now now' r network address]
  by (auto simp: lookupHost_ttl)

lemma step_ttl:
  "ttl (step n now now' r op) = (case op of OpSetTTL d \<Rightarrow> d | _ \<Rightarrow> ttl r)"
proof (cases op)
  case (OpResolveAddr network address)
  then show ?thesis by (simp add: resolveAddr_ttl)
next
  case (OpGetCachedIPs host)
  then show ?thesis by (auto simp: GetCachedIPs_def split: option.splits)
next
  case (OpGoroutine i)
  then show ?thesis by (simp add: runGoroutine_def resolveDNS_ttl)
qed (simp_all add: ClearCache_def ClearHost_def RefreshCache_frame SetTTL_def)

lemma step_entries:
  assumes "(h, e) \<in> set (cache (step n now now' r op))"
  shows "(h, e) \<in> set (cache r) \<or> (\<exists>t addrs. e = newEntry (ttl r) t addrs)"
proof (cases op)
  case (OpResolveAddr network address)
  with assms have "(h, e) \<in> set (cache (snd (resolveAddr n now now' r network address)))"
    by simp
  from resolveAddr_entries[OF this] show ?thesis by blast
next
  case (OpGetCachedIPs host)
  with assms have "(h, e) \<in> set (cache r) \<or> (h, e) \<in> set (Delete (cache r) host)"
    by (auto simp: GetCachedIPs_def split: option.splits if_splits)
  then show ?thesis using set_Delete by blast
next
  case OpClearCache
  with assms show ?thesis using set_ClearCache_fold by (auto simp: ClearCache_def)
next
  case (OpClearHost host)
  with assms show ?thesis using set_Delete by (auto simp: ClearHost_def)
next
  case OpRefreshCache
  with assms show ?thesis by (simp add: RefreshCache_frame)
next
  case (OpSetTTL d)
  with assms show ?thesis by (simp add: SetTTL_def)
next
  case (OpGoroutine i)
  show ?thesis
  proof (cases "i < length (goroutines r)")
    case True
    with assms OpGoroutine show ?thesis
      using resolveDNS_entries[of h e n now
          "r\<lparr>goroutines := take i (goroutines r) @ drop (Suc i) (goroutines r)\<rparr>" "goroutines r ! i"]
      by (auto simp: runGoroutine_def)
  next
    case False
    with assms OpGoroutine show ?thesis by (simp add: runGoroutine_def)
  qed
qed

lemma newEntry_fields:
  "ips (newEntry t now addrs) = addrs"
  "expires (newEntry t now addrs) = now + sint t"
  "stale (newEntry t now addrs) = now + sint (t * 80) sdiv 100"
  by (simp_all add: newEntry_def Add_def sint_quo_100 refreshThreshold_def)

lemma newEntry_ordered:
  assumes "0 \<le> sint t"
  shows "stale (newEntry t now addrs) \<le> expires (newEntry t now addrs)"
  using stale_offset_le[OF assms] by (simp add: newEntry_def Add_def)

lemma step_staleBeforeExpiry:
  assumes inv: "staleBeforeExpiry r" and pos: "\<forall>d. op = OpSetTTL d \<longrightarrow> 0 \<le> sint d"
  shows "staleBeforeExpiry (step n now now' r op)"
proof -
  from inv have t: "0 \<le> sint (ttl r)" and old: "\<forall>(h, e)\<in>set (cache r). stale e \<le> expires e"
    by (auto simp: staleBeforeExpiry_def list_all_iff)
  have "0 \<le> sint (ttl (step n now now' r op))"
    using t pos by (cases op) (simp_all add: step_ttl del: step.simps)
  moreover have "stale e \<le> expires e" if "(h, e) \<in> set (cache (step n now now' r op))" for h e
  proof -
    from step_entries[OF that] show ?thesis
    proof
      assume "(h, e) \<in> set (cache r)"
      with old show ?thesis by blast
    next
      assume "\<exists>t addrs. e = newEntry (ttl r) t addrs"
      with t show ?thesis by (auto intro: newEntry_ordered)
    qed
  qed
  ultimately show ?thesis
    by (auto simp: staleBeforeExpiry_def list_all_iff)
qed

lemma NewResolver_staleBeforeExpiry: "staleBeforeExpiry (NewResolver t servers)"
  by (simp add: staleBeforeExpiry_def NewResolver_def defaultTTL_def Minute_def Second_def)


lemma stale_exact_fifths:
  fixes t :: Duration
  assumes "0 \<le> sint t" "sint t * 80 < 2 ^ 63" "5 dvd sint t"
  shows "5 * (stale (newEntry t now addrs) - now) = 4 * sint t"
proof -
  from assms(3) obtain k where k: "sint t = 5 * k" ..
  have "stale (newEntry t now addrs) - now = (sint t * 80) div 100"
    using stale_offset_exact[OF assms(1,2)] by (simp add: newEntry_def Add_def)
  also have "\<dots> = 4 * k" by (simp add: k)
  finally show ?thesis by (simp add: k)
qed

text \<open>
  C8, as the code has it. The entry stored by a successful resolution at time \<open>now\<close>
  under the TTL \<open>t\<close> has \<open>expires = now + t\<close> and \<open>stale = now + (t * 80) / 100\<close>, the
  product taken in \<^verbatim>\<open>int64\<close> (it wraps) and the quotient truncated towards zero: for
  \<open>0 \<le> t\<close> with \<open>80 t\<close> in range this is \<open>now\<close> plus \<open>0.8 t\<close> rounded down, and exactly
  \<open>0.8 t\<close> when \<open>t\<close> is a multiple of 5 ns. For every \<open>t \<ge> 0\<close>, wrapped product or not,
  \<open>stale \<le> expires\<close>. Every operation leaves in the cache only entries that were there
  before, unchanged, or entries built whole by a resolution under the current TTL; so the
  ordering \<open>stale \<le> expires\<close> of all entries, with a TTL that is not negative, holds
  after the constructor and is preserved by every operation other than a \<^verbatim>\<open>SetTTL\<close> to
  a negative duration.
\<close>

theorem cache_entry_timestamps:
  "(fst (LookupIP n (serverIndex r) host) = Inr addrs \<and> addrs \<noteq> [] \<longrightarrow>
      Load (cache (snd (resolveDNS n now r host))) host = Some (newEntry (ttl r) now addrs)) \<and>
   expires (newEntry t now addrs) = now + sint t \<and>
   stale (newEntry t now addrs) = now + sint (t * 80) sdiv 100 \<and>
   (0 \<le> sint t \<and> sint t * 80 < 2 ^ 63 \<longrightarrow>
      stale (newEntry t now addrs) = now + (sint t * 80) div 100) \<and>
   (0 \<le> sint t \<and> sint t * 80 < 2 ^ 63 \<and> 5 dvd sint t \<longrightarrow>
      5 * (stale (newEntry t now addrs) - now) = 4 * sint t) \<and>
   (0 \<le> sint t \<longrightarrow> stale (newEntry t now addrs) \<le> expires (newEntry t now addrs)) \<and>
   (\<forall>h e. (h, e) \<in> set (cache (step n now now' r op)) \<longrightarrow>
      (h, e) \<in> set (cache r) \<or> (\<exists>t' addrs'. e = newEntry (ttl r) t' addrs')) \<and>
   (staleBeforeExpiry r \<and> (\<forall>d. op = OpSetTTL d \<longrightarrow> 0 \<le> sint d) \<longrightarrow>
      staleBeforeExpiry (step n now now' r op)) \<and>
   staleBeforeExpiry (NewResolver t servers)"
proof (intro conjI impI allI)
  assume "fst (LookupIP n (serverIndex r) host) = Inr addrs \<and> addrs \<noteq> []"
  then have ok: "fst (LookupIP n (serverIndex r) host) = Inr addrs" "addrs \<noteq> []" by simp_all
  show "Load (cache (snd (resolveDNS n now r host))) host = Some (newEntry (ttl r) now addrs)"
    by (simp add: resolveDNS_success[OF ok] Load_Store newEntry_def)
next
  show "expires (newEntry t now addrs) = now + sint t"
    "stale (newEntry t now addrs) = now + sint (t * 80) sdiv 100"
    by (rule newEntry_fields)+
next
  assume "0 \<le> sint t \<and> sint t * 80 < 2 ^ 63"
  then show "stale (newEntry t now addrs) = now + (sint t * 80) div 100"
    using stale_offset_exact[of t] by (simp add: newEntry_def Add_def)
next
  assume "0 \<le> sint t \<and> sint t * 80 < 2 ^ 63 \<and> 5 dvd sint t"
  then show "5 * (stale (newEntry t now addrs) - now) = 4 * sint t"
    using stale_exact_fifths by blast
next
  assume "0 \<le> sint t"
  then show "stale (newEntry t now addrs) \<le> expires (newEntry t now addrs)"
    by (rule newEntry_ordered)
next
  fix h e assume "(h, e) \<in> set (cache (step n now now' r op))"
  then show "(h, e) \<in> set (cache r) \<or> (\<exists>t' addrs'. e = newEntry (ttl r) t' addrs')"
    by (rule step_entries)
next
  assume "staleBeforeExpiry r \<and> (\<forall>d. op = OpSetTTL d \<longrightarrow> 0 \<le> sint d)"
  then show "staleBeforeExpiry (step n now now' r op)"
    using step_staleBeforeExpiry by blast
next
  show "staleBeforeExpiry (NewResolver t servers)"
    by (rule NewResolver_staleBeforeExpiry)
qed

theorem cache_entry_timestamps_witness:
  "Load (cache (snd (resolveDNS exampleNet 0 (NewResolver 100 []) ''example.com''))) ''example.com'' =
     Some (newEntry 100 0 [exampleV6, exampleV4]) \<and>
   expires (newEntry 100 0 [exampleV6, exampleV4]) = 100 \<and>
   stale (newEntry 100 0 [exampleV6, exampleV4]) = 80 \<and>
   5 * (stale (newEntry 100 0 [exampleV6, exampleV4]) - 0) = 4 * sint (100 :: Duration) \<and>
   stale (newEntry 100 0 [exampleV6, exampleV4]) \<le> expires (newEntry 100 0 [exampleV6, exampleV4]) \<and>
   staleBeforeExpiry (NewResolver 100 []) \<and>
   staleBeforeExpiry
     (step exampleNet 0 0 (NewResolver 100 []) (OpResolveAddr ''tcp'' ''example.com:80''))"
proof -
  have ok: "fst (LookupIP exampleNet (serverIndex (NewResolver 100 [])) ''example.com'') =
      Inr [exampleV6, exampleV4] \<and> [exampleV6, exampleV4] \<noteq> []"
    by (simp add: exampleNet_LookupIP)
  have t: "ttl (NewResolver 100 []) = 100"
    by (simp add: NewResolver_def)
  have h: "0 \<le> sint (100 :: Duration) \<and> sint (100 :: Duration) * 80 < 2 ^ 63 \<and>
      5 dvd sint (100 :: Duration)"
    by simp
  have op: "\<forall>d. OpResolveAddr ''tcp'' ''example.com:80'' = OpSetTTL d \<longrightarrow> 0 \<le> sint d"
    by simp
  note th = cache_entry_timestamps[of exampleNet "NewResolver 100 []" "''example.com''"
      "[exampleV6, exampleV4]" 0 100 0 "OpResolveAddr ''tcp'' ''example.com:80''" "[]"]
  from th ok t h op show ?thesis
    by (simp add: signed_divide_int_def)
qed

text \<open>
  The claim as stated fails twice. After \<^verbatim>\<open>SetTTL(-100)\<close> a successful resolution at
  time 0 stores \<open>stale = -80\<close> and \<open>expires = -100\<close>, so \<open>stale \<le> expires\<close> is false.
  Under a TTL of 1 ns the stored \<open>stale\<close> is \<open>createdAt + 0\<close>, not \<open>createdAt + 0.8\<close>.
\<close>

theorem cache_entry_timestamps_counterexample:
  "Load (cache (snd (resolveDNS exampleNet 0 (SetTTL (NewResolver 100 []) (- 100)) ''example.com'')))
       ''example.com'' =
     Some \<lparr>ips = [exampleV6, exampleV4], expires = - 100, stale = - 80\<rparr> \<and>
   \<not> stale \<lparr>ips = [exampleV6, exampleV4], expires = - 100, stale = - 80\<rparr>
       \<le> expires \<lparr>ips = [exampleV6, exampleV4], expires = - 100, stale = - 80\<rparr> \<and>
   Load (cache (snd (resolveDNS exampleNet 0 (NewResolver 1 []) ''example.com''))) ''example.com'' =
     Some \<lparr>ips = [exampleV6, exampleV4], expires = 1, stale = 0\<rparr> \<and>
   5 * (stale \<lparr>ips = [exampleV6, exampleV4], expires = 1, stale = 0\<rparr> - 0) \<noteq> 4 * sint (1 :: Duration)"
proof -
  have q: "sint (quo (- (100 * refreshThreshold)) 100) = - 80"
    "sint (quo refreshThreshold 100) = 0"
    by (simp_all add: quo_def refreshThreshold_def signed_divide_int_def)
  have ok: "fst (LookupIP exampleNet (serverIndex r) ''example.com'') = Inr [exampleV6, exampleV4]"
    "[exampleV6, exampleV4] \<noteq> []" for r
    by (simp_all add: exampleNet_LookupIP)
  show ?thesis
    by (simp add: resolveDNS_success[OF ok] Load_Store SetTTL_def NewResolver_def Add_def q)
qed

end
